theory Spec2Isabelle
  imports Main "HOL-Library.Sublist"
begin

section \<open>Pinned-message test helpers and the member-list factory hook\<close>

text \<open>
  The helpers of the pinned-message end-to-end tests (class \<open>Helpers\<close>) drive three
  collaborators: the browser page, the application page object with its Matrix client,
  and a bot client. The collaborators are opaque: what a call does to the page and
  whether it throws is a parameter of the model (\<open>'s env\<close>), and every call a helper
  makes is appended to a trace, so that a property of a helper is a property of the
  sequence of calls it makes and of the result it returns.
\<close>

subsection \<open>Data\<close>

text \<open>An object with a \<open>name\<close> field (\<open>{ name: string }\<close>), and a Matrix room.\<close>

record named =
  name :: string

record room = named +
  roomId :: string

text \<open>The argument \<open>room: string | { name: string }\<close>.\<close>

datatype 'a room_arg = RoomName string | RoomObject "'a named_scheme"

text \<open>The content object \<open>{ body: message, msgtype: "m.text" }\<close>.\<close>

record content =
  body :: string
  msgtype :: string

text \<open>The two clients a helper holds: \<open>this.bot\<close> and \<open>this.app.client\<close>.\<close>

datatype client = BotClient | AppClient

datatype button = LeftButton | RightButton

datatype role = Button | Menuitem | Menu | Heading | ListRole | Listitem

text \<open>
  Locators as the helpers build them. Building a locator touches nothing on the page;
  only a click or an expectation on it does. \<open>Within p l\<close> is the chained form
  \<open>p.getByRole(...)\<close>, \<open>p.getByText(...)\<close>, \<open>p.getByTestId(...)\<close>.
\<close>

datatype locator =
    Css string
  | CssHasText string string
  | GetByRole role "string option"
  | GetByText string
  | GetByTestId string
  | Nth locator nat
  | FilterHasText locator string
  | Within locator locator

datatype expectation =
    ToHaveText locator string
  | ToMatchScreenshot locator string
  | ToHaveCount locator nat
  | ToBeVisible locator

text \<open>Every call a helper makes on a collaborator.\<close>

datatype event =
    EvaluateHandleFind string
  | HandleEvaluateRoomId
  | SendMessage client string content
  | WaitForTimeout nat
  | ViewRoomByName string
  | Click locator button
  | Expect expectation

datatype error =
    TypeError
  | ExpectationFailed expectation
  | Thrown string

text \<open>
  The collaborators. \<open>perform\<close> is what a call does: the page state after it, and the
  error it throws if it throws. \<open>getRooms\<close> is the list \<open>cli.getRooms()\<close> returns
  in the application's client. \<open>holds\<close> is whether an expectation of the test
  framework is met by the page; an expectation reads the page and leaves it as it is.
\<close>

record 's env =
  perform :: "event \<Rightarrow> 's \<Rightarrow> error option \<times> 's"
  getRooms :: "'s \<Rightarrow> room list"
  holds :: "expectation \<Rightarrow> 's \<Rightarrow> bool"

record 's world =
  st :: 's
  trace :: "event list"

type_synonym ('s, 'a) action = "'s world \<Rightarrow> (error + 'a) \<times> 's world"

subsection \<open>Sequencing of awaited calls\<close>

definition ret :: "'a \<Rightarrow> ('s, 'a) action" where
  "ret x w = (Inr x, w)"

definition throw :: "error \<Rightarrow> ('s, 'a) action" where
  "throw e w = (Inl e, w)"

text \<open>\<open>await p; f\<close>: an error of \<open>p\<close> leaves the helper at once.\<close>

definition andThen :: "('s, 'a) action \<Rightarrow> ('a \<Rightarrow> ('s, 'b) action) \<Rightarrow> ('s, 'b) action" where
  "andThen p f w = (case p w of (Inl e, w') \<Rightarrow> (Inl e, w') | (Inr x, w') \<Rightarrow> f x w')"

definition call :: "'s env \<Rightarrow> event \<Rightarrow> ('s, unit) action" where
  "call E ev w =
     (case perform E ev (st w) of
        (None, s') \<Rightarrow> (Inr (), \<lparr>st = s', trace = trace w @ [ev]\<rparr>)
      | (Some e, s') \<Rightarrow> (Inl e, \<lparr>st = s', trace = trace w @ [ev]\<rparr>))"

definition expect :: "'s env \<Rightarrow> expectation \<Rightarrow> ('s, unit) action" where
  "expect E x w =
     (if holds E x (st w) then (Inr (), \<lparr>st = st w, trace = trace w @ [Expect x]\<rparr>)
      else (Inl (ExpectationFailed x), \<lparr>st = st w, trace = trace w @ [Expect x]\<rparr>))"

subsection \<open>Numbers in template literals\<close>

definition digit_char :: "nat \<Rightarrow> char" where
  "digit_char d = char_of (48 + d)"

text \<open>
  \<open>`${n}`\<close> for a number that holds a non-negative integer: its decimal digits. This
  is what JavaScript prints for the integers a number holds exactly, those up to
  \<open>Number.MAX_SAFE_INTEGER\<close>.
\<close>

fun numberToString :: "nat \<Rightarrow> string" where
  "numberToString n =
     (if n < 10 then [digit_char n]
      else numberToString (n div 10) @ [digit_char (n mod 10)])"

declare numberToString.simps [simp del]

definition MAX_SAFE_INTEGER :: nat where
  "MAX_SAFE_INTEGER = 2 ^ 53 - 1"

subsection \<open>The helpers\<close>

text \<open>\<open>typeof room === "string" ? room : room.name\<close>\<close>

fun roomArgName :: "'a room_arg \<Rightarrow> string" where
  "roomArgName (RoomName s) = s"
| "roomArgName (RoomObject r) = name r"

text \<open>
  \<open>findRoomByName\<close>: the handle of \<open>cli.getRooms().find((r) => r.name === roomName)\<close>,
  evaluated in the page; \<open>None\<close> is the handle of \<open>undefined\<close>.
\<close>

definition findRoomByName :: "'s env \<Rightarrow> string \<Rightarrow> ('s, room option) action" where
  "findRoomByName E roomName =
     andThen (call E (EvaluateHandleFind roomName))
       (\<lambda>_ w. (Inr (find (\<lambda>r. name r = roomName) (getRooms E (st w))), w))"

text \<open>
  \<open>room.evaluate((room) => room.roomId)\<close>: reading \<open>roomId\<close> of \<open>undefined\<close> throws.
\<close>

definition evaluateRoomId :: "'s env \<Rightarrow> room option \<Rightarrow> ('s, string) action" where
  "evaluateRoomId E h =
     andThen (call E HandleEvaluateRoomId)
       (\<lambda>_. case h of None \<Rightarrow> throw TypeError | Some r \<Rightarrow> ret (roomId r))"

text \<open>The loop of \<open>sendMessageAsClient\<close>.\<close>

fun sendLoop :: "'s env \<Rightarrow> client \<Rightarrow> string \<Rightarrow> string list \<Rightarrow> ('s, unit) action" where
  "sendLoop E cli rid [] = ret ()"
| "sendLoop E cli rid (message # messages) =
     andThen (call E (SendMessage cli rid \<lparr>body = message, msgtype = ''m.text''\<rparr>))
       (\<lambda>_. andThen (call E (WaitForTimeout 100))
         (\<lambda>_. sendLoop E cli rid messages))"

definition sendMessageAsClient ::
  "'s env \<Rightarrow> client \<Rightarrow> 'a room_arg \<Rightarrow> string list \<Rightarrow> ('s, unit) action" where
  "sendMessageAsClient E cli roomName messages =
     andThen (findRoomByName E (roomArgName roomName))
       (\<lambda>room. andThen (evaluateRoomId E room)
         (\<lambda>rid. sendLoop E cli rid messages))"

definition receiveMessages :: "'s env \<Rightarrow> 'a room_arg \<Rightarrow> string list \<Rightarrow> ('s, unit) action" where
  "receiveMessages E room messages = sendMessageAsClient E BotClient room messages"

definition goTo :: "'s env \<Rightarrow> 'a room_arg \<Rightarrow> ('s, unit) action" where
  "goTo E room = call E (ViewRoomByName (roomArgName room))"

definition pinMessage :: "'s env \<Rightarrow> string \<Rightarrow> ('s, unit) action" where
  "pinMessage E message =
     andThen (call E (Click (CssHasText ''.mx_MTextBody'' message) RightButton))
       (\<lambda>_. call E (Click (GetByRole Menuitem (Some ''Pin'')) LeftButton))"

fun pinMessages :: "'s env \<Rightarrow> string list \<Rightarrow> ('s, unit) action" where
  "pinMessages E [] = ret ()"
| "pinMessages E (message # messages) =
     andThen (pinMessage E message) (\<lambda>_. pinMessages E messages)"

definition openRoomInfo :: "'s env \<Rightarrow> ('s, unit) action" where
  "openRoomInfo E = call E (Click (Nth (GetByRole Button (Some ''Room info'')) 1) LeftButton)"

definition assertPinnedCountInRoomInfo :: "'s env \<Rightarrow> nat \<Rightarrow> ('s, unit) action" where
  "assertPinnedCountInRoomInfo E count =
     expect E (ToHaveText (GetByRole Menuitem (Some ''Pinned messages''))
                 (''Pinned messages'' @ numberToString count))"

definition openPinnedMessagesList :: "'s env \<Rightarrow> ('s, unit) action" where
  "openPinnedMessagesList E =
     call E (Click (GetByRole Menuitem (Some ''Pinned messages'')) LeftButton)"

definition getRightPanel :: locator where
  "getRightPanel = Css ''#mx_RightPanel''"

text \<open>The loop of \<open>assertPinnedMessagesList\<close>.\<close>

fun assertVisibleLoop :: "'s env \<Rightarrow> locator \<Rightarrow> string list \<Rightarrow> ('s, unit) action" where
  "assertVisibleLoop E list [] = ret ()"
| "assertVisibleLoop E list (message # messages) =
     andThen (expect E (ToBeVisible (Within list (GetByText message))))
       (\<lambda>_. assertVisibleLoop E list messages)"

definition assertPinnedMessagesList :: "'s env \<Rightarrow> string list \<Rightarrow> ('s, unit) action" where
  "assertPinnedMessagesList E messages =
     (let rightPanel = getRightPanel in
      andThen (expect E (ToHaveText (Within rightPanel (GetByRole Heading (Some ''Pinned messages'')))
                           (numberToString (length messages) @ '' Pinned messages'')))
       (\<lambda>_. andThen (expect E (ToMatchScreenshot rightPanel
                        (''pinned-messages-list-messages-'' @ numberToString (length messages) @ ''.png'')))
       (\<lambda>_. let list = Within rightPanel (GetByRole ListRole None) in
             andThen (expect E (ToHaveCount (Within list (GetByRole Listitem None)) (length messages)))
       (\<lambda>_. assertVisibleLoop E list messages))))"

definition assertEmptyPinnedMessagesList :: "'s env \<Rightarrow> ('s, unit) action" where
  "assertEmptyPinnedMessagesList E =
     expect E (ToMatchScreenshot getRightPanel ''pinned-messages-list-empty.png'')"

definition openUnpinAllDialog :: "'s env \<Rightarrow> ('s, unit) action" where
  "openUnpinAllDialog E =
     andThen (openRoomInfo E)
       (\<lambda>_. andThen (openPinnedMessagesList E)
         (\<lambda>_. call E (Click (GetByRole Button (Some ''Unpin all'')) LeftButton)))"

definition getUnpinAllDialog :: locator where
  "getUnpinAllDialog = CssHasText ''.mx_Dialog'' ''Unpin all messages?''"

definition confirmUnpinAllDialog :: "'s env \<Rightarrow> ('s, unit) action" where
  "confirmUnpinAllDialog E =
     call E (Click (Within getUnpinAllDialog (GetByRole Button (Some ''Continue''))) LeftButton)"

definition backPinnedMessagesList :: "'s env \<Rightarrow> ('s, unit) action" where
  "backPinnedMessagesList E =
     call E (Click (Within (Css ''#mx_RightPanel'') (GetByTestId ''base-card-back-button'')) LeftButton)"

definition unpinMessageFromMessageList :: "'s env \<Rightarrow> string \<Rightarrow> ('s, unit) action" where
  "unpinMessageFromMessageList E message =
     (let item = FilterHasText
                   (Within (Within getRightPanel (GetByRole ListRole None)) (GetByRole Listitem None))
                   message in
      andThen (call E (Click (Within item (GetByRole Button None)) LeftButton))
       (\<lambda>_. call E (Click (Within (GetByRole Menu (Some ''Open menu''))
                                   (GetByRole Menuitem (Some ''Unpin''))) LeftButton)))"

subsection \<open>Calls that take time\<close>

text \<open>
  An awaited call \<open>await f(x)\<close> is two steps: the call, which starts the work and
  returns a promise, and the await of the promise, which suspends the helper until the
  work is over. The timeline of a helper records both, \<open>Began\<close> when a call is made and
  \<open>Ended\<close> when its promise settles, so that a call made while another is in flight
  shows in it. What the call does to the page, and the error it throws if it throws, are
  those of \<open>perform\<close>, taken when the promise settles. A promise that is not awaited
  stays in flight: its \<open>Began\<close> has no \<open>Ended\<close> after it.
\<close>

datatype mark = Began event | Ended event

datatype promise = Promise event

record 's timeline =
  now :: 's
  marks :: "mark list"

type_synonym ('s, 'a) timed = "'s timeline \<Rightarrow> (error + 'a) \<times> 's timeline"

definition ret_t :: "'a \<Rightarrow> ('s, 'a) timed" where
  "ret_t x t = (Inr x, t)"

definition throw_t :: "error \<Rightarrow> ('s, 'a) timed" where
  "throw_t e t = (Inl e, t)"

definition andThen_t :: "('s, 'a) timed \<Rightarrow> ('a \<Rightarrow> ('s, 'b) timed) \<Rightarrow> ('s, 'b) timed" where
  "andThen_t p f t = (case p t of (Inl e, t') \<Rightarrow> (Inl e, t') | (Inr x, t') \<Rightarrow> f x t')"

text \<open>The call \<open>f(x)\<close>: the work begins, the promise is returned.\<close>

definition startCall :: "event \<Rightarrow> ('s, promise) timed" where
  "startCall ev t = (Inr (Promise ev), \<lparr>now = now t, marks = marks t @ [Began ev]\<rparr>)"

text \<open>\<open>await p\<close>: the helper goes on when the promise has settled.\<close>

fun awaitPromise :: "'s env \<Rightarrow> promise \<Rightarrow> ('s, unit) timed" where
  "awaitPromise E (Promise ev) t =
     (case perform E ev (now t) of
        (None, s') \<Rightarrow> (Inr (), \<lparr>now = s', marks = marks t @ [Ended ev]\<rparr>)
      | (Some e, s') \<Rightarrow> (Inl e, \<lparr>now = s', marks = marks t @ [Ended ev]\<rparr>))"

text \<open>
  The helpers behind \<open>receiveMessages\<close> once more, each \<open>await f(x)\<close> of the source in
  its two steps.
\<close>

definition findRoomByName_t :: "'s env \<Rightarrow> string \<Rightarrow> ('s, room option) timed" where
  "findRoomByName_t E roomName =
     andThen_t (startCall (EvaluateHandleFind roomName))
       (\<lambda>p. andThen_t (awaitPromise E p)
         (\<lambda>_ t. (Inr (find (\<lambda>r. name r = roomName) (getRooms E (now t))), t)))"

definition evaluateRoomId_t :: "'s env \<Rightarrow> room option \<Rightarrow> ('s, string) timed" where
  "evaluateRoomId_t E h =
     andThen_t (startCall HandleEvaluateRoomId)
       (\<lambda>p. andThen_t (awaitPromise E p)
         (\<lambda>_. case h of None \<Rightarrow> throw_t TypeError | Some r \<Rightarrow> ret_t (roomId r)))"

fun sendLoop_t :: "'s env \<Rightarrow> client \<Rightarrow> string \<Rightarrow> string list \<Rightarrow> ('s, unit) timed" where
  "sendLoop_t E cli rid [] = ret_t ()"
| "sendLoop_t E cli rid (message # messages) =
     andThen_t (startCall (SendMessage cli rid \<lparr>body = message, msgtype = ''m.text''\<rparr>))
       (\<lambda>p. andThen_t (awaitPromise E p)
         (\<lambda>_. andThen_t (startCall (WaitForTimeout 100))
           (\<lambda>p. andThen_t (awaitPromise E p)
             (\<lambda>_. sendLoop_t E cli rid messages))))"

definition sendMessageAsClient_t ::
  "'s env \<Rightarrow> client \<Rightarrow> 'a room_arg \<Rightarrow> string list \<Rightarrow> ('s, unit) timed" where
  "sendMessageAsClient_t E cli roomName messages =
     andThen_t (findRoomByName_t E (roomArgName roomName))
       (\<lambda>room. andThen_t (evaluateRoomId_t E room)
         (\<lambda>rid. sendLoop_t E cli rid messages))"

definition receiveMessages_t :: "'s env \<Rightarrow> 'a room_arg \<Rightarrow> string list \<Rightarrow> ('s, unit) timed" where
  "receiveMessages_t E room messages = sendMessageAsClient_t E BotClient room messages"

text \<open>Calls made one at a time: each begins and ends before the next begins.\<close>

definition inTurn :: "event list \<Rightarrow> mark list" where
  "inTurn evs = concat (map (\<lambda>ev. [Began ev, Ended ev]) evs)"

text \<open>The calls of a timeline that are over, and the world that shows only those.\<close>

fun completed :: "mark list \<Rightarrow> event list" where
  "completed [] = []"
| "completed (Ended ev # ms) = ev # completed ms"
| "completed (Began ev # ms) = completed ms"

definition atomicOf :: "'s timeline \<Rightarrow> 's world" where
  "atomicOf t = \<lparr>st = now t, trace = completed (marks t)\<rparr>"

text \<open>
  \<open>refines p q\<close>: every run of the timed action \<open>p\<close> makes its calls one at a time and,
  seen through the calls that are over, is the run of \<open>q\<close>.
\<close>

definition refines :: "('s, 'a) timed \<Rightarrow> ('s, 'a) action \<Rightarrow> bool" where
  "refines p q =
     (\<forall>t r t'. p t = (r, t') \<longrightarrow>
        q (atomicOf t) = (r, atomicOf t') \<and> (\<exists>evs. marks t' = marks t @ inTurn evs))"

subsection \<open>Call sequences\<close>

text \<open>
  The calls the loop of \<open>sendMessageAsClient\<close> makes when none of them throws: for
  each message in turn, the send and then the wait.
\<close>

definition sendScript :: "client \<Rightarrow> string \<Rightarrow> string list \<Rightarrow> event list" where
  "sendScript cli rid messages =
     concat (map (\<lambda>m. [SendMessage cli rid \<lparr>body = m, msgtype = ''m.text''\<rparr>, WaitForTimeout 100]) messages)"

text \<open>The two page evaluations that turn a room name into a room id.\<close>

definition resolveScript :: "string \<Rightarrow> event list" where
  "resolveScript roomName = [EvaluateHandleFind roomName, HandleEvaluateRoomId]"

fun isSend :: "event \<Rightarrow> bool" where
  "isSend (SendMessage c r x) = True"
| "isSend _ = False"

text \<open>
  The list \<open>cli.getRooms()\<close> returns when the callback of \<open>findRoomByName\<close> runs
  in the page, for a helper started in world \<open>w\<close>.
\<close>

definition roomsAtLookup :: "'s env \<Rightarrow> string \<Rightarrow> 's world \<Rightarrow> room list" where
  "roomsAtLookup E roomName w = getRooms E (snd (perform E (EvaluateHandleFind roomName) (st w)))"

text \<open>
  The calls \<open>pinMessages\<close> makes when none of them throws: for each message in turn,
  the right click on it and the click on the menu item.
\<close>

definition pinScript :: "string list \<Rightarrow> event list" where
  "pinScript messages =
     concat (map (\<lambda>m. [Click (CssHasText ''.mx_MTextBody'' m) RightButton,
                        Click (GetByRole Menuitem (Some ''Pin'')) LeftButton]) messages)"

text \<open>
  The expectations of \<open>assertPinnedMessagesList\<close> when all of them are met: the heading,
  the screenshot, the number of items, and for each message in turn its visibility.
\<close>

definition assertListScript :: "string list \<Rightarrow> event list" where
  "assertListScript messages =
     [Expect (ToHaveText (Within getRightPanel (GetByRole Heading (Some ''Pinned messages'')))
                (numberToString (length messages) @ '' Pinned messages'')),
      Expect (ToMatchScreenshot getRightPanel
                (''pinned-messages-list-messages-'' @ numberToString (length messages) @ ''.png'')),
      Expect (ToHaveCount (Within (Within getRightPanel (GetByRole ListRole None)) (GetByRole Listitem None))
                (length messages))] @
     map (\<lambda>m. Expect (ToBeVisible (Within (Within getRightPanel (GetByRole ListRole None)) (GetByText m))))
       messages"

text \<open>Making one call of the trace: an expectation or a call on a collaborator.\<close>

fun doEvent :: "'s env \<Rightarrow> event \<Rightarrow> ('s, unit) action" where
  "doEvent E (Expect x) = expect E x"
| "doEvent E ev = call E ev"

text \<open>
  Making the calls of a list once each, in order, and stopping at the first that throws,
  with its error.
\<close>

fun runCalls :: "'s env \<Rightarrow> event list \<Rightarrow> ('s, unit) action" where
  "runCalls E [] = ret ()"
| "runCalls E (ev # evs) = andThen (doEvent E ev) (\<lambda>_. runCalls E evs)"

text \<open>
  \<open>onceEach E p script\<close>: in every run of the helper \<open>p\<close> the calls made are an
  initial segment of \<open>script\<close>, the whole of it when the helper returns normally; the
  result and the world the helper leaves are those of making these calls once each, in
  order, stopping at the first that throws; and an error the helper throws is the error
  of a call, with the world that call left.
\<close>

definition onceEach :: "'s env \<Rightarrow> ('s, unit) action \<Rightarrow> event list \<Rightarrow> bool" where
  "onceEach E p script =
     (\<forall>w res w'. p w = (res, w') \<longrightarrow>
        (\<exists>new. trace w' = trace w @ new \<and> prefix new script \<and>
           (res = Inr () \<longrightarrow> new = script) \<and>
           runCalls E new w = (res, w') \<and>
           (\<forall>e. res = Inl e \<longrightarrow> (\<exists>w0 ev. doEvent E ev w0 = (Inl e, w')))))"

text \<open>The number a string of decimal digits denotes.\<close>

definition decimalValue :: "string \<Rightarrow> nat" where
  "decimalValue s = foldl (\<lambda>v c. 10 * v + (of_char c - 48)) 0 s"

text \<open>
  The decimal numerals: digits only, at least one, and no leading zero but in \<open>0\<close>
  itself.
\<close>

definition canonicalDecimal :: "string \<Rightarrow> bool" where
  "canonicalDecimal ds =
     (ds \<noteq> [] \<and> (\<forall>c\<in>set ds. c \<in> set ''0123456789'') \<and> (1 < length ds \<longrightarrow> hd ds \<noteq> CHR ''0''))"

text \<open>
  \<open>checks p P\<close>: the action \<open>p\<close> leaves the page as it is and returns normally exactly
  when \<open>P\<close> holds of the page.
\<close>

definition checks :: "('s, unit) action \<Rightarrow> ('s \<Rightarrow> bool) \<Rightarrow> bool" where
  "checks p P = (\<forall>w res w'. p w = (res, w') \<longrightarrow> st w' = st w \<and> (res = Inr () \<longleftrightarrow> P (st w)))"

subsection \<open>The member-list view-model factory\<close>

text \<open>The Matrix client: \<open>cli.getRoom(roomId)\<close> is a room or \<open>null\<close>.\<close>

record matrix_client =
  getRoom :: "string \<Rightarrow> room option"

record 'store sdk_context =
  memberListStore :: 'store

text \<open>\<open>new MemberService(roomId, cli, sdkContext.memberListStore)\<close>\<close>

record 'store member_service =
  service_roomId :: string
  service_cli :: matrix_client
  service_store :: 'store

datatype room_state_event = Update

text \<open>
  What the factory takes from its surroundings, none of it among the sources, so all of
  it a parameter: the two contexts; the hook \<open>useEventEmitterState\<close>, given an emitter,
  an event name and a mapper, and returning the value the factory passes on; the function
  \<open>canInviteTo\<close>, given whatever the call site passes it, \<open>null\<close> included, and free to
  throw; the method \<open>isSpaceRoom\<close> of a room that is there; and the view-model hook
  \<open>useMemberListViewModel\<close>.
\<close>

record ('store, 'vm) hooks =
  useMatrixClientContext :: matrix_client
  useContextSDK :: "'store sdk_context"
  useEventEmitterState ::
    "room option \<Rightarrow> room_state_event \<Rightarrow> (unit \<Rightarrow> error + bool) \<Rightarrow> error + bool"
  canInviteTo :: "room option \<Rightarrow> error + bool"
  isSpaceRoom :: "room \<Rightarrow> bool"
  useMemberListViewModel :: "bool \<Rightarrow> bool \<Rightarrow> 'store member_service \<Rightarrow> 'vm"

text \<open>\<open>!!room\<close>\<close>

definition truthy :: "room option \<Rightarrow> bool" where
  "truthy room = (room \<noteq> None)"

text \<open>\<open>room?.isSpaceRoom()\<close>: \<open>None\<close> is \<open>undefined\<close>.\<close>

definition optionalIsSpaceRoom :: "('store, 'vm) hooks \<Rightarrow> room option \<Rightarrow> bool option" where
  "optionalIsSpaceRoom H room = (case room of None \<Rightarrow> None | Some r \<Rightarrow> Some (isSpaceRoom H r))"

text \<open>\<open>v ?? d\<close>\<close>

definition nullish :: "'a option \<Rightarrow> 'a \<Rightarrow> 'a" where
  "nullish v d = (case v of None \<Rightarrow> d | Some x \<Rightarrow> x)"

text \<open>
  The mapper is \<open>() => !!room && canInviteTo(room)\<close>: where \<open>!!room\<close> is false the
  value is \<open>false\<close> and \<open>canInviteTo\<close> is not called.
\<close>

definition useMemberListViewModelFactory :: "('store, 'vm) hooks \<Rightarrow> string \<Rightarrow> error + 'vm" where
  "useMemberListViewModelFactory H room_id =
     (let cli = useMatrixClientContext H;
          room = getRoom cli room_id;
          sdkContext = useContextSDK H
      in case useEventEmitterState H room Update
                (\<lambda>_. if truthy room then canInviteTo H room else Inr False) of
           Inl e \<Rightarrow> Inl e
         | Inr canInviteToState \<Rightarrow>
             (let memberService =
                    \<lparr>service_roomId = room_id, service_cli = cli,
                     service_store = memberListStore sdkContext\<rparr>
              in Inr (useMemberListViewModel H canInviteToState
                        (nullish (optionalIsSpaceRoom H room) False) memberService)))"

subsection \<open>Example environments\<close>

text \<open>
  Two rooms share the name \<open>Room 1\<close>, and the name of a third contains it.
\<close>

definition three_rooms :: "room list" where
  "three_rooms =
     [\<lparr>name = ''Room 10'', roomId = ''!ten''\<rparr>,
      \<lparr>name = ''Room 1'', roomId = ''!one''\<rparr>,
      \<lparr>name = ''Room 1'', roomId = ''!again''\<rparr>]"

text \<open>An environment in which no call throws and every expectation is met.\<close>

definition quiet_env :: "room list env" where
  "quiet_env = \<lparr>perform = (\<lambda>ev s. (None, s)), getRooms = (\<lambda>s. s), holds = (\<lambda>x s. True)\<rparr>"

definition start_world :: "room list world" where
  "start_world = \<lparr>st = three_rooms, trace = []\<rparr>"

definition two_sent :: "room list world" where
  "two_sent = \<lparr>st = three_rooms, trace =
        [EvaluateHandleFind ''Room 1'', HandleEvaluateRoomId,
         SendMessage BotClient ''!one'' \<lparr>body = ''a'', msgtype = ''m.text''\<rparr>, WaitForTimeout 100,
         SendMessage BotClient ''!one'' \<lparr>body = ''b'', msgtype = ''m.text''\<rparr>, WaitForTimeout 100]\<rparr>"


text \<open>The world after a lookup of the name \<open>Room\<close>, which no room has.\<close>

definition lookup_failed :: "room list world" where
  "lookup_failed = \<lparr>st = three_rooms, trace = [EvaluateHandleFind ''Room'', HandleEvaluateRoomId]\<rparr>"

definition resolved_only :: "room list world" where
  "resolved_only = \<lparr>st = three_rooms, trace = [EvaluateHandleFind ''Room 1'', HandleEvaluateRoomId]\<rparr>"

text \<open>
  An environment in which sending the message \<open>b\<close> and clicking the menu item \<open>Pin\<close>
  throw.
\<close>

definition flaky_env :: "room list env" where
  "flaky_env =
     \<lparr>perform = (\<lambda>ev s.
        (if ev = SendMessage BotClient ''!one'' \<lparr>body = ''b'', msgtype = ''m.text''\<rparr>
         then Some (Thrown ''M_LIMIT_EXCEEDED'')
         else if ev = Click (GetByRole Menuitem (Some ''Pin'')) LeftButton
         then Some (Thrown ''TimeoutError'')
         else None, s)),
      getRooms = (\<lambda>s. s), holds = (\<lambda>x s. True)\<rparr>"

definition send_failed :: "room list world" where
  "send_failed = \<lparr>st = three_rooms, trace =
        [EvaluateHandleFind ''Room 1'', HandleEvaluateRoomId,
         SendMessage BotClient ''!one'' \<lparr>body = ''a'', msgtype = ''m.text''\<rparr>, WaitForTimeout 100,
         SendMessage BotClient ''!one'' \<lparr>body = ''b'', msgtype = ''m.text''\<rparr>]\<rparr>"

definition pin_failed :: "room list world" where
  "pin_failed = \<lparr>st = three_rooms, trace =
        [Click (CssHasText ''.mx_MTextBody'' ''a'') RightButton,
         Click (GetByRole Menuitem (Some ''Pin'')) LeftButton]\<rparr>"

text \<open>
  An environment in which the screenshot of the right panel never matches and every
  other expectation is met.
\<close>

definition screenshot_differs_env :: "room list env" where
  "screenshot_differs_env =
     \<lparr>perform = (\<lambda>ev s. (None, s)), getRooms = (\<lambda>s. s),
      holds = (\<lambda>x s. case x of ToMatchScreenshot l f \<Rightarrow> False | _ \<Rightarrow> True)\<rparr>"

text \<open>
  A client that knows no room, a hook that returns what its mapper computes, as on a
  first render, a \<open>canInviteTo\<close> that throws on \<open>null\<close>, and a view model that shows
  what it was given.
\<close>

definition no_rooms_hooks :: "(nat, bool \<times> bool \<times> string \<times> nat) hooks" where
  "no_rooms_hooks =
     \<lparr>useMatrixClientContext = \<lparr>getRoom = (\<lambda>_. None)\<rparr>,
      useContextSDK = \<lparr>memberListStore = 7\<rparr>,
      useEventEmitterState = (\<lambda>emitter eventName fn. fn ()),
      canInviteTo = (\<lambda>room. case room of None \<Rightarrow> Inl TypeError | Some r \<Rightarrow> Inr True),
      isSpaceRoom = (\<lambda>_. True),
      useMemberListViewModel = (\<lambda>canInvite isSpace service.
         (canInvite, isSpace, service_roomId service, service_store service))\<rparr>"

text \<open>
  The same on a later render: the hook returns the value \<open>true\<close> it kept from the
  render before, when the room was there.
\<close>

definition kept_value_hooks :: "(nat, bool \<times> bool \<times> string \<times> nat) hooks" where
  "kept_value_hooks = no_rooms_hooks\<lparr>useEventEmitterState := (\<lambda>emitter eventName fn. Inr True)\<rparr>"

text \<open>The timeline of a run that sends two messages, each call in its turn.\<close>

definition start_timeline :: "room list timeline" where
  "start_timeline = \<lparr>now = three_rooms, marks = []\<rparr>"

definition two_sent_timeline :: "room list timeline" where
  "two_sent_timeline = \<lparr>now = three_rooms, marks =
     [Began (EvaluateHandleFind ''Room 1''), Ended (EvaluateHandleFind ''Room 1''),
      Began HandleEvaluateRoomId, Ended HandleEvaluateRoomId,
      Began (SendMessage BotClient ''!one'' \<lparr>body = ''a'', msgtype = ''m.text''\<rparr>),
      Ended (SendMessage BotClient ''!one'' \<lparr>body = ''a'', msgtype = ''m.text''\<rparr>),
      Began (WaitForTimeout 100), Ended (WaitForTimeout 100),
      Began (SendMessage BotClient ''!one'' \<lparr>body = ''b'', msgtype = ''m.text''\<rparr>),
      Ended (SendMessage BotClient ''!one'' \<lparr>body = ''b'', msgtype = ''m.text''\<rparr>),
      Began (WaitForTimeout 100), Ended (WaitForTimeout 100)]\<rparr>"

section \<open>Properties\<close>

subsection \<open>Traces of the helpers\<close>

lemma call_trace: "call E ev w = (res, w') \<Longrightarrow> trace w' = trace w @ [ev]"
  by (auto simp: call_def split: prod.splits option.splits)

lemma call_error: "call E ev w = (Inl e, w') \<Longrightarrow> perform E ev (st w) = (Some e, st w')"
  by (auto simp: call_def split: prod.splits option.splits)

lemma andThen_assoc: "andThen (andThen p f) g = andThen p (\<lambda>x. andThen (f x) g)"
  by (rule ext) (simp add: andThen_def split: prod.splits sum.splits)

lemma doEvent_trace: "doEvent E ev w = (res, w') \<Longrightarrow> trace w' = trace w @ [ev]"
  by (cases ev) (auto simp: call_def expect_def split: prod.splits option.splits if_splits)

lemma runCalls_trace:
  "runCalls E evs w = (res, w') \<Longrightarrow>
     \<exists>new. trace w' = trace w @ new \<and> prefix new evs
       \<and> (res = Inr () \<longrightarrow> new = evs)
       \<and> (\<forall>e. res = Inl e \<longrightarrow> (\<exists>w0 ev. doEvent E ev w0 = (Inl e, w')))
       \<and> runCalls E new w = (res, w')"
proof (induction evs arbitrary: w)
  case Nil
  then show ?case by (auto simp: ret_def)
next
  case (Cons ev evs)
  obtain r1 w1 where c1: "doEvent E ev w = (r1, w1)" by force
  have t1: "trace w1 = trace w @ [ev]" using doEvent_trace[OF c1] .
  show ?case
  proof (cases r1)
    case (Inl e)
    with c1 Cons.prems have r: "res = Inl e" "w' = w1" by (auto simp: andThen_def)
    with c1 Inl have "runCalls E [ev] w = (res, w')" by (simp add: andThen_def)
    moreover from r c1 Inl have "\<forall>e. res = Inl e \<longrightarrow> (\<exists>w0 ev. doEvent E ev w0 = (Inl e, w'))"
      by blast
    ultimately show ?thesis using t1 r
      by (intro exI[of _ "[ev]"]) simp
  next
    case (Inr u)
    with c1 Cons.prems have "runCalls E evs w1 = (res, w')" by (auto simp: andThen_def)
    from Cons.IH[OF this] obtain new where
      n: "trace w' = trace w1 @ new" "prefix new evs" "res = Inr () \<longrightarrow> new = evs"
         "\<forall>e. res = Inl e \<longrightarrow> (\<exists>w0 ev. doEvent E ev w0 = (Inl e, w'))"
         "runCalls E new w1 = (res, w')" by blast
    from n(5) c1 Inr have "runCalls E (ev # new) w = (res, w')" by (simp add: andThen_def)
    with n t1 show ?thesis by (intro exI[of _ "ev # new"]) simp
  qed
qed

lemma runCalls_append:
  "runCalls E (xs @ ys) w = andThen (runCalls E xs) (\<lambda>_. runCalls E ys) w"
  by (induction xs arbitrary: w) (auto simp: andThen_def ret_def split: prod.splits sum.splits)

lemma sendScript_Cons:
  "sendScript cli rid (m # ms) =
     SendMessage cli rid \<lparr>body = m, msgtype = ''m.text''\<rparr> # WaitForTimeout 100 # sendScript cli rid ms"
  by (simp add: sendScript_def)

lemma sendScript_Nil: "sendScript cli rid [] = []"
  by (simp add: sendScript_def)

lemma sendLoop_runCalls: "sendLoop E cli rid ms = runCalls E (sendScript cli rid ms)"
  by (induction ms) (simp_all add: sendScript_Nil sendScript_Cons)

lemma sendLoop_trace:
  "sendLoop E cli rid ms w = (res, w') \<Longrightarrow>
     \<exists>new. trace w' = trace w @ new \<and> prefix new (sendScript cli rid ms)
       \<and> (res = Inr () \<longrightarrow> new = sendScript cli rid ms)
       \<and> (\<forall>e. res = Inl e \<longrightarrow> (\<exists>w0 ev. doEvent E ev w0 = (Inl e, w')))
       \<and> runCalls E new w = (res, w')"
  unfolding sendLoop_runCalls by (rule runCalls_trace)

lemma script_separation:
  "prefix q (sendScript cli rid ms) \<Longrightarrow> q = a @ SendMessage c r x # mid @ SendMessage c' r' y # b \<Longrightarrow>
   \<forall>ev\<in>set mid. \<not> isSend ev \<Longrightarrow> mid = [WaitForTimeout 100]"
proof (induction ms arbitrary: q a)
  case Nil
  then show ?case by (simp add: sendScript_Nil)
next
  case (Cons m ms)
  show ?case
  proof (cases a)
    case Nil
    with Cons.prems have p: "prefix (mid @ SendMessage c' r' y # b) (WaitForTimeout 100 # sendScript cli rid ms)"
      by (simp add: sendScript_Cons)
    then obtain mid' where mid: "mid = WaitForTimeout 100 # mid'"
      by (cases mid) auto
    with p have p': "prefix (mid' @ SendMessage c' r' y # b) (sendScript cli rid ms)" by simp
    have "mid' = []"
    proof (cases mid')
      case Nil then show ?thesis .
    next
      case (Cons e mid'')
      with p' have "isSend e" by (cases ms) (auto simp: sendScript_Cons sendScript_Nil)
      with Cons mid Cons.prems(3) show ?thesis by simp
    qed
    with mid show ?thesis by simp
  next
    case (Cons e a')
    with Cons.prems have p: "prefix (a' @ SendMessage c r x # mid @ SendMessage c' r' y # b) (WaitForTimeout 100 # sendScript cli rid ms)"
      by (simp add: sendScript_Cons)
    then obtain a'' where a': "a' = WaitForTimeout 100 # a''"
      by (cases a') auto
    with p have "prefix (a'' @ SendMessage c r x # mid @ SendMessage c' r' y # b) (sendScript cli rid ms)"
      by simp
    from Cons.IH[OF this refl Cons.prems(3)] show ?thesis .
  qed
qed

lemma sendMessageAsClient_run:
  assumes "sendMessageAsClient E cli room ms w = (res, w')"
  shows "(\<exists>e. res = Inl e \<and> call E (EvaluateHandleFind (roomArgName room)) w = (Inl e, w'))
       \<or> (\<exists>w1. call E (EvaluateHandleFind (roomArgName room)) w = (Inr (), w1) \<and>
            ((\<exists>e. res = Inl e \<and> call E HandleEvaluateRoomId w1 = (Inl e, w'))
           \<or> (call E HandleEvaluateRoomId w1 = (Inr (), w') \<and> res = Inl TypeError \<and>
                find (\<lambda>r. name r = roomArgName room) (getRooms E (st w1)) = None)
           \<or> (\<exists>w2 r. call E HandleEvaluateRoomId w1 = (Inr (), w2) \<and>
                find (\<lambda>r. name r = roomArgName room) (getRooms E (st w1)) = Some r \<and>
                sendLoop E cli (roomId r) ms w2 = (res, w'))))"
  using assms
  by (auto simp: sendMessageAsClient_def findRoomByName_def evaluateRoomId_def andThen_def
        throw_def ret_def split: prod.splits sum.splits option.splits)

lemma call_st: "call E ev w = (res, w') \<Longrightarrow> st w' = snd (perform E ev (st w))"
  by (auto simp: call_def split: prod.splits option.splits)

lemma sendMessageAsClient_trace:
  assumes run: "sendMessageAsClient E cli room ms w = (res, w')"
  obtains (unresolved) new where
      "trace w' = trace w @ new" "res \<noteq> Inr ()" "new \<noteq> []"
      "prefix new (resolveScript (roomArgName room))"
      "\<forall>e. res = Inl e \<longrightarrow> (\<exists>w0 ev. doEvent E ev w0 = (Inl e, w')) \<or>
          (\<exists>w0. evaluateRoomId E None w0 = (Inl e, w'))"
      "runCalls E new w = (res, w') \<or>
         (res = Inl TypeError \<and> runCalls E new w = (Inr (), w') \<and>
          find (\<lambda>r. name r = roomArgName room) (roomsAtLookup E (roomArgName room) w) = None)"
    | (resolved) r q where
      "find (\<lambda>r. name r = roomArgName room) (roomsAtLookup E (roomArgName room) w) = Some r"
      "trace w' = trace w @ resolveScript (roomArgName room) @ q"
      "prefix q (sendScript cli (roomId r) ms)"
      "res = Inr () \<longrightarrow> q = sendScript cli (roomId r) ms"
      "\<forall>e. res = Inl e \<longrightarrow> (\<exists>w0 ev. doEvent E ev w0 = (Inl e, w'))"
      "runCalls E (resolveScript (roomArgName room) @ q) w = (res, w')"
proof -
  let ?nm = "roomArgName room"
  from sendMessageAsClient_run[OF run]
  consider (a) e where "res = Inl e" "call E (EvaluateHandleFind ?nm) w = (Inl e, w')"
    | (b) w1 e where "call E (EvaluateHandleFind ?nm) w = (Inr (), w1)" "res = Inl e"
        "call E HandleEvaluateRoomId w1 = (Inl e, w')"
    | (c) w1 where "call E (EvaluateHandleFind ?nm) w = (Inr (), w1)" "res = Inl TypeError"
        "call E HandleEvaluateRoomId w1 = (Inr (), w')"
        "find (\<lambda>r. name r = ?nm) (getRooms E (st w1)) = None"
    | (d) w1 w2 r where "call E (EvaluateHandleFind ?nm) w = (Inr (), w1)"
        "call E HandleEvaluateRoomId w1 = (Inr (), w2)"
        "find (\<lambda>r. name r = ?nm) (getRooms E (st w1)) = Some r"
        "sendLoop E cli (roomId r) ms w2 = (res, w')"
    by blast
  then show ?thesis
  proof cases
    case a
    from a(2) have "doEvent E (EvaluateHandleFind ?nm) w = (Inl e, w')" by simp
    then have "\<exists>w0 ev. doEvent E ev w0 = (Inl e, w')" by blast
    moreover from a have "runCalls E [EvaluateHandleFind ?nm] w = (res, w')"
      by (simp add: andThen_def)
    ultimately show ?thesis using call_trace[OF a(2)] a(1)
      by (intro unresolved[of "[EvaluateHandleFind ?nm]"]) (simp_all add: resolveScript_def)
  next
    case b
    from b(3) have "doEvent E HandleEvaluateRoomId w1 = (Inl e, w')" by simp
    then have "\<exists>w0 ev. doEvent E ev w0 = (Inl e, w')" by blast
    moreover from b have "runCalls E (resolveScript ?nm) w = (res, w')"
      by (simp add: andThen_def resolveScript_def)
    ultimately show ?thesis using call_trace[OF b(1)] call_trace[OF b(3)] b(2)
      by (intro unresolved[of "resolveScript ?nm"]) (simp_all add: resolveScript_def)
  next
    case c
    from c(3) have "evaluateRoomId E None w1 = (Inl TypeError, w')"
      by (simp add: evaluateRoomId_def andThen_def throw_def)
    then have "\<exists>w0. evaluateRoomId E None w0 = (Inl TypeError, w')" ..
    moreover from c have "runCalls E (resolveScript ?nm) w = (Inr (), w')"
      by (simp add: andThen_def resolveScript_def ret_def)
    moreover have "roomsAtLookup E ?nm w = getRooms E (st w1)"
      using call_st[OF c(1)] by (simp add: roomsAtLookup_def)
    with c(4) have "find (\<lambda>r. name r = ?nm) (roomsAtLookup E ?nm w) = None" by simp
    ultimately show ?thesis using call_trace[OF c(1)] call_trace[OF c(3)] c(2)
      by (intro unresolved[of "resolveScript ?nm"]) (simp_all add: resolveScript_def)
  next
    case d
    from sendLoop_trace[OF d(4)] obtain q where
      q: "trace w' = trace w2 @ q" "prefix q (sendScript cli (roomId r) ms)"
         "res = Inr () \<longrightarrow> q = sendScript cli (roomId r) ms"
         "\<forall>e. res = Inl e \<longrightarrow> (\<exists>w0 ev. doEvent E ev w0 = (Inl e, w'))"
         "runCalls E q w2 = (res, w')" by blast
    from q(5) d(1) d(2) have rc: "runCalls E (resolveScript ?nm @ q) w = (res, w')"
      by (simp add: resolveScript_def andThen_def)
    have t: "trace w2 = trace w @ resolveScript ?nm"
      using call_trace[OF d(1)] call_trace[OF d(2)] by (simp add: resolveScript_def)
    have "roomsAtLookup E ?nm w = getRooms E (st w1)"
      using call_st[OF d(1)] by (simp add: roomsAtLookup_def)
    with d(3) have f: "find (\<lambda>r. name r = ?nm) (roomsAtLookup E ?nm w) = Some r" by simp
    from q(1) t have "trace w' = trace w @ resolveScript ?nm @ q" by simp
    from resolved[OF f this q(2) q(3) q(4) rc] show ?thesis .
  qed
qed

lemma resolveScript_before_send:
  "resolveScript nm @ q = a @ SendMessage c r x # rest \<Longrightarrow> \<exists>a'. a = resolveScript nm @ a'"
  by (cases a; cases "tl a") (auto simp: resolveScript_def)

lemma resolveScript_no_send:
  "prefix new (resolveScript nm) \<Longrightarrow> new = a @ SendMessage c r x # rest \<Longrightarrow> False"
  by (auto dest!: set_mono_prefix simp: resolveScript_def)

lemma sendScript_kinds:
  "ev \<in> set (sendScript cli rid ms) \<Longrightarrow> isSend ev \<or> ev = WaitForTimeout 100"
  by (auto simp: sendScript_def)

lemmas run_defs = sendMessageAsClient_def receiveMessages_def findRoomByName_def evaluateRoomId_def
  andThen_def call_def ret_def throw_def

lemma quiet_run:
  "sendMessageAsClient quiet_env BotClient (RoomName ''Room 1'' :: unit room_arg) [''a'', ''b''] start_world =
     (Inr (), two_sent)"
  by (simp add: run_defs quiet_env_def start_world_def three_rooms_def two_sent_def)

subsection \<open>The fixed wait between sends\<close>

text \<open>
  C1. In every run of \<open>sendMessageAsClient\<close> (\<open>receiveMessages\<close> is the same helper
  with the bot as client), whether it returns or throws: between two consecutive
  \<open>sendMessage\<close> calls of the trace lies exactly one call, \<open>waitForTimeout(100)\<close>; and
  the helper makes no call other than the two page evaluations that resolve the room,
  the sends and these waits.
\<close>

theorem sendMessageAsClient_fixed_wait:
  assumes "sendMessageAsClient E cli room ms w = (res, w')"
  shows "\<exists>new. trace w' = trace w @ new \<and>
    (\<forall>a c r x mid c' r' y b.
        new = a @ SendMessage c r x # mid @ SendMessage c' r' y # b \<longrightarrow>
        (\<forall>ev\<in>set mid. \<not> isSend ev) \<longrightarrow> mid = [WaitForTimeout 100]) \<and>
    (\<forall>ev\<in>set new. ev \<in> set (resolveScript (roomArgName room)) \<or> isSend ev \<or> ev = WaitForTimeout 100)"
  using assms
proof (cases rule: sendMessageAsClient_trace)
  case (unresolved new)
  show ?thesis
  proof (intro exI[of _ new] conjI allI impI ballI)
    show "trace w' = trace w @ new" by (rule unresolved(1))
  next
    fix a c r x mid c' r' y b
    assume "new = a @ SendMessage c r x # mid @ SendMessage c' r' y # b"
    from resolveScript_no_send[OF unresolved(4) this] show "mid = [WaitForTimeout 100]" ..
  next
    fix ev assume "ev \<in> set new"
    with unresolved(4) have "ev \<in> set (resolveScript (roomArgName room))"
      using set_mono_prefix by blast
    then show "ev \<in> set (resolveScript (roomArgName room)) \<or> isSend ev \<or> ev = WaitForTimeout 100" ..
  qed
next
  case (resolved rr q)
  let ?R = "resolveScript (roomArgName room)"
  show ?thesis
  proof (intro exI[of _ "?R @ q"] conjI allI impI ballI)
    show "trace w' = trace w @ ?R @ q" by (rule resolved(2))
  next
    fix a c r x mid c' r' y b
    assume d: "?R @ q = a @ SendMessage c r x # mid @ SendMessage c' r' y # b"
      and m: "\<forall>ev\<in>set mid. \<not> isSend ev"
    from resolveScript_before_send[OF d] obtain a' where a': "a = ?R @ a'" ..
    with d have "q = a' @ SendMessage c r x # mid @ SendMessage c' r' y # b" by simp
    from script_separation[OF resolved(3) this m] show "mid = [WaitForTimeout 100]" .
  next
    fix ev assume "ev \<in> set (?R @ q)"
    then consider "ev \<in> set ?R" | "ev \<in> set q" by auto
    then show "ev \<in> set ?R \<or> isSend ev \<or> ev = WaitForTimeout 100"
    proof cases
      case 1 then show ?thesis ..
    next
      case 2
      with resolved(3) have "ev \<in> set (sendScript cli (roomId rr) ms)"
        using set_mono_prefix by blast
      from sendScript_kinds[OF this] show ?thesis by blast
    qed
  qed
qed

theorem sendMessageAsClient_fixed_wait_witness:
  "receiveMessages quiet_env (RoomName ''Room 1'' :: unit room_arg) [''a'', ''b''] start_world =
     (Inr (), two_sent) \<and>
   (\<exists>new. trace two_sent = trace start_world @ new \<and>
    (\<forall>a c r x mid c' r' y b.
        new = a @ SendMessage c r x # mid @ SendMessage c' r' y # b \<longrightarrow>
        (\<forall>ev\<in>set mid. \<not> isSend ev) \<longrightarrow> mid = [WaitForTimeout 100]) \<and>
    (\<forall>ev\<in>set new. ev \<in> set (resolveScript (roomArgName (RoomName ''Room 1'' :: unit room_arg)))
        \<or> isSend ev \<or> ev = WaitForTimeout 100))"
  using quiet_run sendMessageAsClient_fixed_wait[OF quiet_run]
  unfolding receiveMessages_def by (rule conjI)


lemma filter_isSend_sendScript:
  "filter isSend (sendScript cli rid ms) =
     map (\<lambda>m. SendMessage cli rid \<lparr>body = m, msgtype = ''m.text''\<rparr>) ms"
  by (induction ms) (simp_all add: sendScript_Nil sendScript_Cons)

lemma filter_isSend_resolveScript: "filter isSend (resolveScript nm) = []"
  by (simp add: resolveScript_def)

lemma sendLoop_append:
  "sendLoop E cli rid (xs @ ys) w = andThen (sendLoop E cli rid xs) (\<lambda>_. sendLoop E cli rid ys) w"
  by (induction xs arbitrary: w) (auto simp: andThen_def ret_def split: prod.splits sum.splits)


subsection \<open>Which room the messages go to\<close>



subsection \<open>What is sent, and as whom\<close>



lemma completed_append: "completed (xs @ ys) = completed xs @ completed ys"
  by (induction xs rule: completed.induct) simp_all

lemma completed_inTurn: "completed (inTurn evs) = evs"
  by (induction evs) (simp_all add: inTurn_def)

lemma inTurn_append: "inTurn (xs @ ys) = inTurn xs @ inTurn ys"
  by (simp add: inTurn_def)

lemma inTurn_Cons: "inTurn (ev # evs) = Began ev # Ended ev # inTurn evs"
  by (simp add: inTurn_def)

lemma andThen_t_assoc: "andThen_t (andThen_t p f) g = andThen_t p (\<lambda>x. andThen_t (f x) g)"
  by (rule ext) (simp add: andThen_t_def split: prod.splits sum.splits)

lemma refines_call: "refines (andThen_t (startCall ev) (awaitPromise E)) (call E ev)"
  unfolding refines_def
proof (intro allI impI)
  fix t r t' assume run: "andThen_t (startCall ev) (awaitPromise E) t = (r, t')"
  obtain e s' where p: "perform E ev (now t) = (e, s')" by force
  with run have m: "marks t' = marks t @ inTurn [ev]" and n: "now t' = s'"
    and r: "r = (case e of None \<Rightarrow> Inr () | Some x \<Rightarrow> Inl x)"
    by (auto simp: andThen_t_def startCall_def inTurn_def split: option.splits)
  from p m n r have "call E ev (atomicOf t) = (r, atomicOf t')"
    by (simp add: call_def atomicOf_def completed_append completed_inTurn split: option.splits)
  with m show "call E ev (atomicOf t) = (r, atomicOf t') \<and> (\<exists>evs. marks t' = marks t @ inTurn evs)"
    by blast
qed

lemma refines_ret: "refines (ret_t x) (ret x)"
  by (auto simp: refines_def ret_t_def ret_def intro: exI[of _ "[]"] simp: inTurn_def)

lemma refines_throw: "refines (throw_t e) (throw e)"
  by (auto simp: refines_def throw_t_def throw_def intro: exI[of _ "[]"] simp: inTurn_def)

lemma refines_read: "refines (\<lambda>t. (Inr (F (now t)), t)) (\<lambda>w. (Inr (F (st w)), w))"
  by (auto simp: refines_def atomicOf_def intro: exI[of _ "[]"] simp: inTurn_def)

lemma refines_andThen:
  assumes p: "refines p q" and f: "\<And>x. refines (f x) (g x)"
  shows "refines (andThen_t p f) (andThen q g)"
  unfolding refines_def
proof (intro allI impI)
  fix t r t' assume run: "andThen_t p f t = (r, t')"
  obtain r1 t1 where p1: "p t = (r1, t1)" by force
  with p have "q (atomicOf t) = (r1, atomicOf t1) \<and> (\<exists>evs. marks t1 = marks t @ inTurn evs)"
    unfolding refines_def by blast
  then obtain evs1 where q1: "q (atomicOf t) = (r1, atomicOf t1)"
    and m1: "marks t1 = marks t @ inTurn evs1" by blast
  show "andThen q g (atomicOf t) = (r, atomicOf t') \<and> (\<exists>evs. marks t' = marks t @ inTurn evs)"
  proof (cases r1)
    case (Inl e)
    with run p1 have "r = Inl e" "t' = t1" by (auto simp: andThen_t_def)
    with q1 m1 Inl show ?thesis by (auto simp: andThen_def)
  next
    case (Inr x)
    with run p1 have "f x t1 = (r, t')" by (auto simp: andThen_t_def)
    with f[of x] have "g x (atomicOf t1) = (r, atomicOf t') \<and> (\<exists>evs. marks t' = marks t1 @ inTurn evs)"
      unfolding refines_def by blast
    then obtain evs2 where q2: "g x (atomicOf t1) = (r, atomicOf t')"
      and m2: "marks t' = marks t1 @ inTurn evs2" by blast
    from m1 m2 have "marks t' = marks t @ inTurn (evs1 @ evs2)" by (simp add: inTurn_append)
    with q1 q2 Inr show ?thesis by (auto simp: andThen_def)
  qed
qed

lemma refines_awaited:
  assumes "\<And>x. refines (f x) (g x)"
  shows "refines (andThen_t (startCall ev) (\<lambda>p. andThen_t (awaitPromise E p) f)) (andThen (call E ev) g)"
  using refines_andThen[OF refines_call, of f g ev E] assms
  by (simp add: andThen_t_assoc)

lemma refines_sendLoop: "refines (sendLoop_t E cli rid ms) (sendLoop E cli rid ms)"
  by (induction ms) (auto intro!: refines_awaited refines_ret)

lemma refines_sendMessageAsClient:
  "refines (sendMessageAsClient_t E cli room ms) (sendMessageAsClient E cli room ms)"
  unfolding sendMessageAsClient_t_def sendMessageAsClient_def findRoomByName_t_def
    findRoomByName_def evaluateRoomId_t_def evaluateRoomId_def andThen_t_assoc andThen_assoc
  by (intro refines_awaited refines_andThen refines_read refines_sendLoop)
     (auto intro: refines_throw refines_ret split: option.splits)

lemma inTurn_next: "inTurn calls = a @ Began ev # x # b \<Longrightarrow> x = Ended ev"
proof (induction calls arbitrary: a)
  case Nil
  then show ?case by (simp add: inTurn_def)
next
  case (Cons c calls)
  show ?case
  proof (cases a)
    case Nil
    with Cons.prems show ?thesis by (auto simp: inTurn_Cons)
  next
    case (Cons m1 a1)
    note a = this
    show ?thesis
    proof (cases a1)
      case Nil
      with a Cons.prems show ?thesis by (auto simp: inTurn_Cons)
    next
      case (Cons m2 a2)
      with a Cons.prems have "inTurn calls = a2 @ Began ev # x # b" by (auto simp: inTurn_Cons)
      then show ?thesis by (rule Cons.IH)
    qed
  qed
qed

lemma inTurn_not_in_flight: "inTurn calls \<noteq> a @ [Began ev]"
proof (induction calls arbitrary: a)
  case Nil
  then show ?case by (simp add: inTurn_def)
next
  case (Cons c calls)
  show ?case
  proof (cases a)
    case Nil
    then show ?thesis by (auto simp: inTurn_Cons)
  next
    case (Cons m1 a1)
    note a = this
    show ?thesis
    proof (cases a1)
      case Nil
      with a show ?thesis by (auto simp: inTurn_Cons)
    next
      case (Cons m2 a2)
      with a Cons.IH[of a2] show ?thesis by (auto simp: inTurn_Cons)
    qed
  qed
qed

lemma inTurn_prev: "inTurn calls = a @ Ended ev # b \<Longrightarrow> a \<noteq> [] \<and> last a = Began ev"
proof (induction calls arbitrary: a)
  case Nil
  then show ?case by (simp add: inTurn_def)
next
  case (Cons c calls)
  show ?case
  proof (cases a)
    case Nil
    with Cons.prems show ?thesis by (auto simp: inTurn_Cons)
  next
    case (Cons m1 a1)
    note a = this
    show ?thesis
    proof (cases a1)
      case Nil
      with a Cons.prems show ?thesis by (auto simp: inTurn_Cons)
    next
      case (Cons m2 a2)
      with a Cons.prems have "inTurn calls = a2 @ Ended ev # b" by (auto simp: inTurn_Cons)
      from Cons.IH[OF this] a Cons show ?thesis by auto
    qed
  qed
qed

lemma timed_run:
  "sendMessageAsClient_t quiet_env BotClient (RoomName ''Room 1'' :: unit room_arg) [''a'', ''b'']
     start_timeline = (Inr (), two_sent_timeline)"
  by (simp add: sendMessageAsClient_t_def findRoomByName_t_def evaluateRoomId_t_def andThen_t_def
        startCall_def ret_t_def quiet_env_def start_timeline_def two_sent_timeline_def three_rooms_def)

subsection \<open>One send at a time, in the order of the list\<close>

text \<open>
  C4. On the timeline, where a call begins when it is made and ends when its promise
  settles, every run of \<open>receiveMessages\<close> makes its calls one at a time: the mark after
  the beginning of a call is the end of that call, no call is left in flight, and every
  end follows its own beginning at once, so no send begins before the send and the wait
  before it are over. The calls are an initial segment, the whole on normal return, of
  the two page evaluations followed by the send and the wait of each message in the
  order of the list. Seen through the calls that are over, the run is the run of
  \<open>receiveMessages\<close> on the trace of calls.
\<close>

theorem receiveMessages_one_call_at_a_time:
  assumes "receiveMessages_t E room ms t = (res, t')"
  shows "\<exists>new calls rid.
     marks t' = marks t @ new \<and> new = inTurn calls \<and>
     prefix calls (resolveScript (roomArgName room) @ sendScript BotClient rid ms) \<and>
     (res = Inr () \<longrightarrow> calls = resolveScript (roomArgName room) @ sendScript BotClient rid ms) \<and>
     (\<forall>a ev x b. new = a @ Began ev # x # b \<longrightarrow> x = Ended ev) \<and>
     (\<forall>a ev. new \<noteq> a @ [Began ev]) \<and>
     (\<forall>a ev b. new = a @ Ended ev # b \<longrightarrow> a \<noteq> [] \<and> last a = Began ev) \<and>
     receiveMessages E room ms (atomicOf t) = (res, atomicOf t')"
proof -
  let ?R = "resolveScript (roomArgName room)"
  from assms have run: "sendMessageAsClient_t E BotClient room ms t = (res, t')"
    by (simp add: receiveMessages_t_def)
  with refines_sendMessageAsClient[of E BotClient room ms]
  have "sendMessageAsClient E BotClient room ms (atomicOf t) = (res, atomicOf t') \<and>
      (\<exists>evs. marks t' = marks t @ inTurn evs)"
    unfolding refines_def by blast
  then obtain calls where at: "sendMessageAsClient E BotClient room ms (atomicOf t) = (res, atomicOf t')"
    and m: "marks t' = marks t @ inTurn calls" by blast
  have tr: "trace (atomicOf t') = trace (atomicOf t) @ calls"
    using m by (simp add: atomicOf_def completed_append completed_inTurn)
  have script: "\<exists>rid. prefix calls (?R @ sendScript BotClient rid ms) \<and>
      (res = Inr () \<longrightarrow> calls = ?R @ sendScript BotClient rid ms)"
    using at
  proof (cases rule: sendMessageAsClient_trace)
    case (unresolved new)
    from unresolved(1) tr have "calls = new" by simp
    with unresolved(4) have "prefix calls (?R @ sendScript BotClient [] ms)" by simp
    with unresolved(2) show ?thesis by blast
  next
    case (resolved r q)
    from resolved(2) tr have "calls = ?R @ q" by simp
    with resolved(3,4) show ?thesis by (intro exI[of _ "roomId r"]) simp
  qed
  then obtain rid where s: "prefix calls (?R @ sendScript BotClient rid ms)"
    "res = Inr () \<longrightarrow> calls = ?R @ sendScript BotClient rid ms" by blast
  from at have r: "receiveMessages E room ms (atomicOf t) = (res, atomicOf t')"
    by (simp add: receiveMessages_def)
  show ?thesis
  proof (intro exI[of _ "inTurn calls"] exI[of _ calls] exI[of _ rid] conjI allI impI)
    show "marks t' = marks t @ inTurn calls" by (rule m)
    show "prefix calls (?R @ sendScript BotClient rid ms)" by (rule s(1))
    show "calls = ?R @ sendScript BotClient rid ms" if "res = Inr ()" using s(2) that by simp
    show "x = Ended ev" if "inTurn calls = a @ Began ev # x # b" for a ev x b
      using that by (rule inTurn_next)
    show "inTurn calls \<noteq> a @ [Began ev]" for a ev by (rule inTurn_not_in_flight)
    show "a \<noteq> []" if "inTurn calls = a @ Ended ev # b" for a ev b
      using inTurn_prev[OF that] by simp
    show "last a = Began ev" if "inTurn calls = a @ Ended ev # b" for a ev b
      using inTurn_prev[OF that] by simp
    show "receiveMessages E room ms (atomicOf t) = (res, atomicOf t')" by (rule r)
  qed simp
qed

theorem receiveMessages_one_call_at_a_time_witness:
  "receiveMessages_t quiet_env (RoomName ''Room 1'' :: unit room_arg) [''a'', ''b''] start_timeline =
     (Inr (), two_sent_timeline) \<and>
   (\<exists>new calls rid.
     marks two_sent_timeline = marks start_timeline @ new \<and> new = inTurn calls \<and>
     prefix calls (resolveScript (roomArgName (RoomName ''Room 1'' :: unit room_arg)) @
                   sendScript BotClient rid [''a'', ''b'']) \<and>
     (Inr () = (Inr () :: error + unit) \<longrightarrow>
        calls = resolveScript (roomArgName (RoomName ''Room 1'' :: unit room_arg)) @
                sendScript BotClient rid [''a'', ''b'']) \<and>
     (\<forall>a ev x b. new = a @ Began ev # x # b \<longrightarrow> x = Ended ev) \<and>
     (\<forall>a ev. new \<noteq> a @ [Began ev]) \<and>
     (\<forall>a ev b. new = a @ Ended ev # b \<longrightarrow> a \<noteq> [] \<and> last a = Began ev) \<and>
     receiveMessages quiet_env (RoomName ''Room 1'' :: unit room_arg) [''a'', ''b'']
       (atomicOf start_timeline) = (Inr (), atomicOf two_sent_timeline))"
proof -
  have run: "receiveMessages_t quiet_env (RoomName ''Room 1'' :: unit room_arg) [''a'', ''b'']
      start_timeline = (Inr (), two_sent_timeline)"
    using timed_run by (simp only: receiveMessages_t_def)
  from run receiveMessages_one_call_at_a_time[OF run] show ?thesis by (rule conjI)
qed

lemma quiet_run_empty:
  "receiveMessages quiet_env (RoomName ''Room 1'' :: unit room_arg) [] start_world = (Inr (), resolved_only)"
  by (simp add: run_defs quiet_env_def start_world_def three_rooms_def resolved_only_def)

subsection \<open>An empty list of messages\<close>

text \<open>
  C8, as amended. With an empty list, \<open>receiveMessages\<close> makes the two page
  evaluations that resolve the room name to a room id and nothing else: no
  \<open>sendMessage\<close> call and no wait, in any run. It returns normally exactly when the
  resolution does: both evaluations return and a room of that name is in the list
  \<open>getRooms()\<close> returns.
\<close>

theorem receiveMessages_no_messages:
  assumes "receiveMessages E room [] w = (res, w')"
  shows "\<exists>new. trace w' = trace w @ new \<and>
     prefix new (resolveScript (roomArgName room)) \<and>
     (\<forall>ev\<in>set new. \<not> isSend ev \<and> (\<forall>n. ev \<noteq> WaitForTimeout n)) \<and>
     (res = Inr () \<longleftrightarrow>
        new = resolveScript (roomArgName room) \<and>
        fst (perform E (EvaluateHandleFind (roomArgName room)) (st w)) = None \<and>
        fst (perform E HandleEvaluateRoomId
               (snd (perform E (EvaluateHandleFind (roomArgName room)) (st w)))) = None \<and>
        find (\<lambda>r. name r = roomArgName room) (roomsAtLookup E (roomArgName room) w) \<noteq> None)"
proof -
  let ?nm = "roomArgName room"
  let ?P = "\<lambda>new. trace w' = trace w @ new \<and>
     prefix new (resolveScript ?nm) \<and>
     (\<forall>ev\<in>set new. \<not> isSend ev \<and> (\<forall>n. ev \<noteq> WaitForTimeout n)) \<and>
     (res = Inr () \<longleftrightarrow>
        new = resolveScript ?nm \<and>
        fst (perform E (EvaluateHandleFind ?nm) (st w)) = None \<and>
        fst (perform E HandleEvaluateRoomId (snd (perform E (EvaluateHandleFind ?nm) (st w)))) = None \<and>
        find (\<lambda>r. name r = ?nm) (roomsAtLookup E ?nm w) \<noteq> None)"
  obtain r1 s1 where p1: "perform E (EvaluateHandleFind ?nm) (st w) = (r1, s1)" by force
  obtain r2 s2 where p2: "perform E HandleEvaluateRoomId s1 = (r2, s2)" by force
  from assms have run: "sendMessageAsClient E BotClient room [] w = (res, w')"
    by (simp add: receiveMessages_def)
  show ?thesis
  proof (cases r1)
    case (Some e)
    with run p1 have "?P [EvaluateHandleFind ?nm]"
      by (auto simp: run_defs resolveScript_def)
    then show ?thesis ..
  next
    case None
    with run p1 p2 have "?P (resolveScript ?nm)"
      by (cases r2; cases "find (\<lambda>r. name r = ?nm) (getRooms E s1)")
         (auto simp: run_defs resolveScript_def roomsAtLookup_def)
    then show ?thesis ..
  qed
qed

theorem receiveMessages_no_messages_witness:
  "receiveMessages quiet_env (RoomName ''Room 1'' :: unit room_arg) [] start_world = (Inr (), resolved_only) \<and>
   trace resolved_only = [EvaluateHandleFind ''Room 1'', HandleEvaluateRoomId] \<and>
   (\<exists>new. trace resolved_only = trace start_world @ new \<and>
     prefix new (resolveScript (roomArgName (RoomName ''Room 1'' :: unit room_arg))) \<and>
     (\<forall>ev\<in>set new. \<not> isSend ev \<and> (\<forall>n. ev \<noteq> WaitForTimeout n)) \<and>
     (Inr () = (Inr () :: error + unit) \<longleftrightarrow>
        new = resolveScript (roomArgName (RoomName ''Room 1'' :: unit room_arg)) \<and>
        fst (perform quiet_env (EvaluateHandleFind (roomArgName (RoomName ''Room 1'' :: unit room_arg))) (st start_world)) = None \<and>
        fst (perform quiet_env HandleEvaluateRoomId
               (snd (perform quiet_env (EvaluateHandleFind (roomArgName (RoomName ''Room 1'' :: unit room_arg))) (st start_world)))) = None \<and>
        find (\<lambda>r. name r = roomArgName (RoomName ''Room 1'' :: unit room_arg))
          (roomsAtLookup quiet_env (roomArgName (RoomName ''Room 1'' :: unit room_arg)) start_world) \<noteq> None))"
proof -
  have tr: "trace resolved_only = [EvaluateHandleFind ''Room 1'', HandleEvaluateRoomId]"
    by (simp add: resolved_only_def)
  from quiet_run_empty tr receiveMessages_no_messages[OF quiet_run_empty] show ?thesis
    by (intro conjI)
qed

text \<open>
  C8 as stated, for every room argument, fails: no room of \<open>three_rooms\<close> has the name
  \<open>Room\<close>, the read of \<open>roomId\<close> on the handle of \<open>undefined\<close> throws, and the helper
  throws with it.
\<close>

theorem receiveMessages_no_messages_counterexample:
  "receiveMessages quiet_env (RoomName ''Room'' :: unit room_arg) [] start_world =
     (Inl TypeError, lookup_failed)"
  by (simp add: run_defs quiet_env_def start_world_def three_rooms_def lookup_failed_def)

subsection \<open>A room given as a string or as an object\<close>

text \<open>
  C9. \<open>receiveMessages\<close> and \<open>goTo\<close> do the same on a string \<open>s\<close> and on any object
  whose \<open>name\<close> is \<open>s\<close>, whatever else the object holds.
\<close>

theorem string_and_object_interchangeable:
  "receiveMessages E (RoomName s) ms = receiveMessages E (RoomObject \<lparr>name = s, \<dots> = more\<rparr>) ms \<and>
   goTo E (RoomName s) = goTo E (RoomObject \<lparr>name = s, \<dots> = more\<rparr>)"
  by (simp add: receiveMessages_def sendMessageAsClient_def goTo_def)

lemma pinScript_Cons:
  "pinScript (m # ms) = Click (CssHasText ''.mx_MTextBody'' m) RightButton #
      Click (GetByRole Menuitem (Some ''Pin'')) LeftButton # pinScript ms"
  by (simp add: pinScript_def)

lemma pinMessages_runCalls: "pinMessages E ms = runCalls E (pinScript ms)"
  by (induction ms) (simp_all add: pinScript_def pinMessage_def andThen_assoc)

lemma pinMessages_trace:
  "pinMessages E ms w = (res, w') \<Longrightarrow>
     \<exists>new. trace w' = trace w @ new \<and> prefix new (pinScript ms)
       \<and> (res = Inr () \<longrightarrow> new = pinScript ms)
       \<and> (\<forall>e. res = Inl e \<longrightarrow> (\<exists>w0 ev. doEvent E ev w0 = (Inl e, w')))
       \<and> runCalls E new w = (res, w')"
  unfolding pinMessages_runCalls by (rule runCalls_trace)

lemma flaky_send_run:
  "sendMessageAsClient flaky_env BotClient (RoomName ''Room 1'' :: unit room_arg) [''a'', ''b'', ''c''] start_world =
     (Inl (Thrown ''M_LIMIT_EXCEEDED''), send_failed)"
  by (simp add: run_defs flaky_env_def start_world_def three_rooms_def send_failed_def)

lemma flaky_pin_run:
  "pinMessages flaky_env [''a'', ''b''] start_world = (Inl (Thrown ''TimeoutError''), pin_failed)"
  by (simp add: run_defs pinMessage_def flaky_env_def start_world_def three_rooms_def pin_failed_def)

lemma prefix_filter: "prefix xs ys \<Longrightarrow> prefix (filter P xs) (filter P ys)"
  by (auto simp: prefix_def)

lemma andThen_ret: "andThen p (\<lambda>_. ret ()) = (p :: ('s, unit) action)"
  by (rule ext) (simp add: andThen_def ret_def split: prod.splits sum.splits)

lemma andThen_ret_unit: "andThen p ret = (p :: ('s, unit) action)"
  by (rule ext) (simp add: andThen_def ret_def split: prod.splits sum.splits)

lemma runCalls_single: "runCalls E [ev] = doEvent E ev"
  by (simp add: andThen_ret andThen_ret_unit)

lemma assertVisibleLoop_runCalls:
  "assertVisibleLoop E l ms = runCalls E (map (\<lambda>m. Expect (ToBeVisible (Within l (GetByText m)))) ms)"
  by (induction ms) simp_all

lemma assertPinnedMessagesList_runCalls:
  "assertPinnedMessagesList E ms = runCalls E (assertListScript ms)"
  unfolding assertPinnedMessagesList_def assertListScript_def Let_def
  by (simp only: append.simps runCalls.simps doEvent.simps assertVisibleLoop_runCalls)

lemma onceEach_runCalls: "onceEach E (runCalls E script) script"
  unfolding onceEach_def
proof (intro allI impI)
  fix w res w' assume "runCalls E script w = (res, w')"
  from runCalls_trace[OF this]
  show "\<exists>new. trace w' = trace w @ new \<and> prefix new script \<and> (res = Inr () \<longrightarrow> new = script) \<and>
           runCalls E new w = (res, w') \<and>
           (\<forall>e. res = Inl e \<longrightarrow> (\<exists>w0 ev. doEvent E ev w0 = (Inl e, w')))"
    by (elim exE conjE) (intro exI conjI; assumption)
qed

subsection \<open>No retry, no recovery\<close>

text \<open>
  C5. Every helper operation makes its calls once each and stops at the first that
  throws. For each helper but \<open>sendMessageAsClient\<close> there is a fixed sequence of calls,
  clicks, navigation and expectations, and in every run the calls made are an initial
  segment of it, the whole of it on normal return (\<open>onceEach\<close>): no click, send or
  expectation is made a second time. The result and the world are those of making the
  calls of the trace once each, in order, stopping at the first that throws; so an error
  of a call leaves the helper as it is, with no call after it, and none is swallowed.
  \<open>sendMessageAsClient\<close> (and \<open>receiveMessages\<close>, which is \<open>sendMessageAsClient\<close> as the
  bot) does the same on the two page evaluations followed by the send and the wait of
  each message, its sends being those of an initial segment of the list, one for each;
  its one other outcome is the throw of the read of \<open>roomId\<close> when no room has the name.
  The fixed wait is the only call made beyond the sends.
\<close>

theorem no_retry_errors_propagate:
  "onceEach E (goTo E room) [ViewRoomByName (roomArgName room)] \<and>
   onceEach E (pinMessage E m)
     [Click (CssHasText ''.mx_MTextBody'' m) RightButton,
      Click (GetByRole Menuitem (Some ''Pin'')) LeftButton] \<and>
   onceEach E (pinMessages E msp) (pinScript msp) \<and>
   onceEach E (openRoomInfo E)
     [Click (Nth (GetByRole Button (Some ''Room info'')) 1) LeftButton] \<and>
   onceEach E (assertPinnedCountInRoomInfo E n)
     [Expect (ToHaveText (GetByRole Menuitem (Some ''Pinned messages''))
                (''Pinned messages'' @ numberToString n))] \<and>
   onceEach E (openPinnedMessagesList E)
     [Click (GetByRole Menuitem (Some ''Pinned messages'')) LeftButton] \<and>
   onceEach E (assertPinnedMessagesList E msa) (assertListScript msa) \<and>
   onceEach E (assertEmptyPinnedMessagesList E)
     [Expect (ToMatchScreenshot getRightPanel ''pinned-messages-list-empty.png'')] \<and>
   onceEach E (openUnpinAllDialog E)
     [Click (Nth (GetByRole Button (Some ''Room info'')) 1) LeftButton,
      Click (GetByRole Menuitem (Some ''Pinned messages'')) LeftButton,
      Click (GetByRole Button (Some ''Unpin all'')) LeftButton] \<and>
   onceEach E (confirmUnpinAllDialog E)
     [Click (Within getUnpinAllDialog (GetByRole Button (Some ''Continue''))) LeftButton] \<and>
   onceEach E (backPinnedMessagesList E)
     [Click (Within (Css ''#mx_RightPanel'') (GetByTestId ''base-card-back-button'')) LeftButton] \<and>
   onceEach E (unpinMessageFromMessageList E m)
     [Click (Within (FilterHasText
                (Within (Within getRightPanel (GetByRole ListRole None)) (GetByRole Listitem None)) m)
              (GetByRole Button None)) LeftButton,
      Click (Within (GetByRole Menu (Some ''Open menu'')) (GetByRole Menuitem (Some ''Unpin'')))
        LeftButton] \<and>
   receiveMessages E room ms = sendMessageAsClient E BotClient room ms \<and>
   (sendMessageAsClient E cli room ms w = (res, w') \<longrightarrow>
      (\<exists>new rid. trace w' = trace w @ new \<and>
         prefix new (resolveScript (roomArgName room) @ sendScript cli rid ms) \<and>
         (res = Inr () \<longrightarrow> new = resolveScript (roomArgName room) @ sendScript cli rid ms) \<and>
         prefix (filter isSend new)
           (map (\<lambda>m. SendMessage cli rid \<lparr>body = m, msgtype = ''m.text''\<rparr>) ms) \<and>
         (runCalls E new w = (res, w') \<or>
            (res = Inl TypeError \<and> runCalls E new w = (Inr (), w') \<and>
             find (\<lambda>r. name r = roomArgName room) (roomsAtLookup E (roomArgName room) w) = None)) \<and>
         (\<forall>e. res = Inl e \<longrightarrow>
            (\<exists>w0 ev. doEvent E ev w0 = (Inl e, w')) \<or>
            (\<exists>w0. evaluateRoomId E None w0 = (Inl e, w')))))"
proof -
  have goTo: "goTo E room = runCalls E [ViewRoomByName (roomArgName room)]"
    by (simp add: goTo_def andThen_ret andThen_ret_unit)
  have pin: "pinMessage E m = runCalls E
     [Click (CssHasText ''.mx_MTextBody'' m) RightButton,
      Click (GetByRole Menuitem (Some ''Pin'')) LeftButton]"
    by (simp add: pinMessage_def andThen_ret andThen_ret_unit)
  have info: "openRoomInfo E = runCalls E
     [Click (Nth (GetByRole Button (Some ''Room info'')) 1) LeftButton]"
    by (simp add: openRoomInfo_def andThen_ret andThen_ret_unit)
  have count: "assertPinnedCountInRoomInfo E n = runCalls E
     [Expect (ToHaveText (GetByRole Menuitem (Some ''Pinned messages''))
                (''Pinned messages'' @ numberToString n))]"
    unfolding assertPinnedCountInRoomInfo_def runCalls_single by (simp only: doEvent.simps)
  have list: "openPinnedMessagesList E = runCalls E
     [Click (GetByRole Menuitem (Some ''Pinned messages'')) LeftButton]"
    by (simp add: openPinnedMessagesList_def andThen_ret andThen_ret_unit)
  have empty: "assertEmptyPinnedMessagesList E = runCalls E
     [Expect (ToMatchScreenshot getRightPanel ''pinned-messages-list-empty.png'')]"
    unfolding assertEmptyPinnedMessagesList_def runCalls_single by (simp only: doEvent.simps)
  have unpinAll: "openUnpinAllDialog E = runCalls E
     [Click (Nth (GetByRole Button (Some ''Room info'')) 1) LeftButton,
      Click (GetByRole Menuitem (Some ''Pinned messages'')) LeftButton,
      Click (GetByRole Button (Some ''Unpin all'')) LeftButton]"
    by (simp add: openUnpinAllDialog_def openRoomInfo_def openPinnedMessagesList_def andThen_ret andThen_ret_unit)
  have confirm: "confirmUnpinAllDialog E = runCalls E
     [Click (Within getUnpinAllDialog (GetByRole Button (Some ''Continue''))) LeftButton]"
    by (simp add: confirmUnpinAllDialog_def andThen_ret andThen_ret_unit)
  have goBack: "backPinnedMessagesList E = runCalls E
     [Click (Within (Css ''#mx_RightPanel'') (GetByTestId ''base-card-back-button'')) LeftButton]"
    by (simp add: backPinnedMessagesList_def andThen_ret andThen_ret_unit)
  have unpin: "unpinMessageFromMessageList E m = runCalls E
     [Click (Within (FilterHasText
                (Within (Within getRightPanel (GetByRole ListRole None)) (GetByRole Listitem None)) m)
              (GetByRole Button None)) LeftButton,
      Click (Within (GetByRole Menu (Some ''Open menu'')) (GetByRole Menuitem (Some ''Unpin'')))
        LeftButton]"
    by (simp add: unpinMessageFromMessageList_def Let_def andThen_ret andThen_ret_unit)
  let ?R = "resolveScript (roomArgName room)"
  have send: "\<exists>new rid. trace w' = trace w @ new \<and>
         prefix new (?R @ sendScript cli rid ms) \<and>
         (res = Inr () \<longrightarrow> new = ?R @ sendScript cli rid ms) \<and>
         prefix (filter isSend new)
           (map (\<lambda>m. SendMessage cli rid \<lparr>body = m, msgtype = ''m.text''\<rparr>) ms) \<and>
         (runCalls E new w = (res, w') \<or>
            (res = Inl TypeError \<and> runCalls E new w = (Inr (), w') \<and>
             find (\<lambda>r. name r = roomArgName room) (roomsAtLookup E (roomArgName room) w) = None)) \<and>
         (\<forall>e. res = Inl e \<longrightarrow>
            (\<exists>w0 ev. doEvent E ev w0 = (Inl e, w')) \<or>
            (\<exists>w0. evaluateRoomId E None w0 = (Inl e, w')))"
    if run: "sendMessageAsClient E cli room ms w = (res, w')"
    using run
  proof (cases rule: sendMessageAsClient_trace)
    case (unresolved new)
    from unresolved(4) have p: "prefix new (?R @ sendScript cli [] ms)" by (rule prefix_prefix)
    from prefix_filter[OF unresolved(4), of isSend] have "filter isSend new = []"
      by (simp add: filter_isSend_resolveScript)
    with unresolved(1,2,5,6) p show ?thesis by (intro exI[of _ new] exI[of _ "[]"]) simp
  next
    case (resolved r q)
    from resolved(3) have p: "prefix (?R @ q) (?R @ sendScript cli (roomId r) ms)" by simp
    from prefix_filter[OF resolved(3), of isSend]
    have "prefix (filter isSend (?R @ q))
        (map (\<lambda>m. SendMessage cli (roomId r) \<lparr>body = m, msgtype = ''m.text''\<rparr>) ms)"
      by (simp add: filter_isSend_sendScript filter_isSend_resolveScript)
    with resolved(2,4,5,6) p show ?thesis by (intro exI[of _ "?R @ q"] exI[of _ "roomId r"]) simp
  qed
  show ?thesis
    unfolding goTo pin info count list empty unpinAll confirm goBack unpin
      pinMessages_runCalls assertPinnedMessagesList_runCalls
    by (intro conjI impI onceEach_runCalls receiveMessages_def send)
qed

theorem no_retry_errors_propagate_witness:
  "sendMessageAsClient flaky_env BotClient (RoomName ''Room 1'' :: unit room_arg) [''a'', ''b'', ''c''] start_world =
     (Inl (Thrown ''M_LIMIT_EXCEEDED''), send_failed) \<and>
   pinMessages flaky_env [''a'', ''b''] start_world = (Inl (Thrown ''TimeoutError''), pin_failed) \<and>
   (\<exists>new rid. trace send_failed = trace start_world @ new \<and>
         prefix new (resolveScript (roomArgName (RoomName ''Room 1'' :: unit room_arg)) @
                     sendScript BotClient rid [''a'', ''b'', ''c'']) \<and>
         (Inl (Thrown ''M_LIMIT_EXCEEDED'') = (Inr () :: error + unit) \<longrightarrow>
            new = resolveScript (roomArgName (RoomName ''Room 1'' :: unit room_arg)) @
                  sendScript BotClient rid [''a'', ''b'', ''c'']) \<and>
         prefix (filter isSend new)
           (map (\<lambda>m. SendMessage BotClient rid \<lparr>body = m, msgtype = ''m.text''\<rparr>) [''a'', ''b'', ''c'']) \<and>
         (runCalls flaky_env new start_world = (Inl (Thrown ''M_LIMIT_EXCEEDED''), send_failed) \<or>
            (Inl (Thrown ''M_LIMIT_EXCEEDED'') = (Inl TypeError :: error + unit) \<and>
             runCalls flaky_env new start_world = (Inr (), send_failed) \<and>
             find (\<lambda>r. name r = roomArgName (RoomName ''Room 1'' :: unit room_arg))
               (roomsAtLookup flaky_env (roomArgName (RoomName ''Room 1'' :: unit room_arg)) start_world) = None)) \<and>
         (\<forall>e. Inl (Thrown ''M_LIMIT_EXCEEDED'') = (Inl e :: error + unit) \<longrightarrow>
            (\<exists>w0 ev. doEvent flaky_env ev w0 = (Inl e, send_failed)) \<or>
            (\<exists>w0. evaluateRoomId flaky_env None w0 = (Inl e, send_failed)))) \<and>
   (\<exists>new. trace pin_failed = trace start_world @ new \<and>
         prefix new (pinScript [''a'', ''b'']) \<and>
         (Inl (Thrown ''TimeoutError'') = (Inr () :: error + unit) \<longrightarrow> new = pinScript [''a'', ''b'']) \<and>
         runCalls flaky_env new start_world = (Inl (Thrown ''TimeoutError''), pin_failed) \<and>
         (\<forall>e. Inl (Thrown ''TimeoutError'') = (Inl e :: error + unit) \<longrightarrow>
            (\<exists>w0 ev. doEvent flaky_env ev w0 = (Inl e, pin_failed))))"
proof -
  note t = no_retry_errors_propagate[where E = flaky_env and cli = BotClient
      and room = "RoomName ''Room 1'' :: unit room_arg" and ms = "[''a'', ''b'', ''c'']"
      and w = start_world and res = "Inl (Thrown ''M_LIMIT_EXCEEDED'')" and w' = send_failed
      and msp = "[''a'', ''b'']" and m = "''a''" and n = 0 and msa = "[]"]
  note p = t[THEN conjunct2, THEN conjunct2, THEN conjunct1]
  note s = t[THEN conjunct2, THEN conjunct2, THEN conjunct2, THEN conjunct2, THEN conjunct2, THEN conjunct2, THEN conjunct2, THEN conjunct2, THEN conjunct2, THEN conjunct2, THEN conjunct2, THEN conjunct2, THEN conjunct2]
  from flaky_send_run flaky_pin_run s[THEN mp, OF flaky_send_run]
    p[unfolded onceEach_def, rule_format, OF flaky_pin_run]
  show ?thesis by (intro conjI)
qed

lemma numberToString_digit: "n < 10 \<Longrightarrow> numberToString n = [digit_char n]"
  by (simp add: numberToString.simps)

lemma digit_char_value: "d < 10 \<Longrightarrow> of_char (digit_char d) = 48 + d"
  by (simp add: digit_char_def)

lemma decimalValue_snoc: "decimalValue (s @ [c]) = 10 * decimalValue s + (of_char c - 48)"
  by (simp add: decimalValue_def)

lemma decimalValue_numberToString: "decimalValue (numberToString n) = n"
proof (induction n rule: numberToString.induct)
  case (1 n)
  show ?case
  proof (cases "n < 10")
    case True
    then show ?thesis
      by (simp add: numberToString_digit decimalValue_def digit_char_value)
  next
    case False
    have "numberToString n = numberToString (n div 10) @ [digit_char (n mod 10)]"
      using False by (subst numberToString.simps) simp
    with "1.IH"[OF False] show ?thesis
      by (simp add: decimalValue_snoc digit_char_value)
  qed
qed

lemma numberToString_3: "numberToString 3 = ''3''"
  by code_simp

lemma numberToString_1: "numberToString 1 = ''1''"
  by code_simp

lemma numberToString_2: "numberToString 2 = ''2''"
  by code_simp

lemma numberToString_12: "numberToString 12 = ''12''"
  by code_simp

lemma digit_chars:
  "\<forall>c\<in>set ''0123456789''. digit_char (of_char c - 48) = c \<and> of_char c - 48 < (10::nat) \<and>
      (c \<noteq> CHR ''0'' \<longrightarrow> 0 < (of_char c - 48 :: nat))"
  by code_simp

lemma digit_char_digits: "\<forall>d\<in>set [0..<10]. digit_char d \<in> set ''0123456789'' \<and> (digit_char d = CHR ''0'' \<longrightarrow> d = 0)"
  by code_simp


lemma digit_char_in:
  assumes "d < 10"
  shows "digit_char d \<in> set ''0123456789''"
proof -
  from assms have "d \<in> set [0..<10]" by simp
  with digit_char_digits show ?thesis by blast
qed

lemma digit_char_zero:
  assumes "d < 10" "digit_char d = CHR ''0''"
  shows "d = 0"
proof -
  from assms(1) have "d \<in> set [0..<10]" by simp
  with digit_char_digits assms(2) show ?thesis by blast
qed

lemma numberToString_ge10:
  "\<not> n < 10 \<Longrightarrow> numberToString n = numberToString (n div 10) @ [digit_char (n mod 10)]"
  by (subst numberToString.simps) simp

lemma numberToString_nonempty: "numberToString n \<noteq> []"
  by (subst numberToString.simps) simp

lemma numberToString_digits: "c \<in> set (numberToString n) \<Longrightarrow> c \<in> set ''0123456789''"
proof (induction n rule: numberToString.induct)
  case (1 n)
  show ?case
  proof (cases "n < 10")
    case True
    with "1.prems" have "c = digit_char n" by (simp add: numberToString_digit)
    with True show ?thesis using digit_char_in by blast
  next
    case False
    with "1.prems" have "c \<in> set (numberToString (n div 10)) \<or> c = digit_char (n mod 10)"
      by (auto simp: numberToString_ge10)
    then show ?thesis
    proof
      assume "c \<in> set (numberToString (n div 10))"
      with "1.IH"[OF False] show ?thesis by blast
    next
      assume "c = digit_char (n mod 10)"
      moreover have "n mod 10 < 10" by simp
      ultimately show ?thesis using digit_char_in by blast
    qed
  qed
qed

lemma numberToString_hd: "0 < n \<Longrightarrow> hd (numberToString n) \<noteq> CHR ''0''"
proof (induction n rule: numberToString.induct)
  case (1 n)
  show ?case
  proof (cases "n < 10")
    case True
    with "1.prems" show ?thesis using digit_char_zero[of n]
      by (auto simp: numberToString_digit)
  next
    case False
    then have "0 < n div 10" by simp
    from "1.IH"[OF False this] show ?thesis
      using False by (simp add: numberToString_ge10 numberToString_nonempty)
  qed
qed

lemma numberToString_length: "1 < length (numberToString n) \<Longrightarrow> 0 < n"
  by (cases "n = 0") (simp_all add: numberToString_digit)

lemma canonicalDecimal_numberToString: "canonicalDecimal (numberToString n)"
  unfolding canonicalDecimal_def
  using numberToString_nonempty numberToString_digits numberToString_hd numberToString_length
  by blast

lemma decimalValue_positive:
  "ds \<noteq> [] \<Longrightarrow> \<forall>c\<in>set ds. c \<in> set ''0123456789'' \<Longrightarrow> hd ds \<noteq> CHR ''0'' \<Longrightarrow> 0 < decimalValue ds"
proof (induction ds rule: rev_induct)
  case Nil
  then show ?case by simp
next
  case (snoc c ds)
  show ?case
  proof (cases "ds = []")
    case True
    with snoc.prems have "c \<in> set ''0123456789''" "c \<noteq> CHR ''0''" by simp_all
    with digit_chars have "0 < (of_char c - 48 :: nat)" by blast
    with True show ?thesis by (simp add: decimalValue_def)
  next
    case False
    with snoc have "0 < decimalValue ds" by simp
    then show ?thesis by (simp add: decimalValue_snoc)
  qed
qed

lemma numberToString_decimalValue:
  "canonicalDecimal ds \<Longrightarrow> numberToString (decimalValue ds) = ds"
proof (induction ds rule: rev_induct)
  case Nil
  then show ?case by (simp add: canonicalDecimal_def)
next
  case (snoc c ds)
  from snoc.prems have c: "c \<in> set ''0123456789''" by (simp add: canonicalDecimal_def)
  with digit_chars have d: "digit_char (of_char c - 48) = c" "of_char c - 48 < (10::nat)" by blast+
  show ?case
  proof (cases "ds = []")
    case True
    with d show ?thesis by (simp add: decimalValue_def numberToString_digit)
  next
    case False
    with snoc.prems have h: "hd ds \<noteq> CHR ''0''" and a: "\<forall>c\<in>set ds. c \<in> set ''0123456789''"
      by (auto simp: canonicalDecimal_def)
    with False have cd: "canonicalDecimal ds" by (simp add: canonicalDecimal_def)
    from decimalValue_positive[OF False a h] have p: "0 < decimalValue ds" .
    let ?v = "10 * decimalValue ds + (of_char c - 48)"
    from p have "\<not> ?v < 10" by simp
    from numberToString_ge10[OF this] d(2)
    have "numberToString ?v = numberToString (decimalValue ds) @ [digit_char (of_char c - 48)]"
      by simp
    with snoc.IH[OF cd] d(1) show ?thesis by (simp add: decimalValue_snoc)
  qed
qed

subsection \<open>The pinned count in the room info\<close>

text \<open>
  C6. For a count that a number holds exactly, \<open>assertPinnedCountInRoomInfo\<close> makes one
  call and no other: the expectation that the menu item \<open>Pinned messages\<close> has the text
  \<open>Pinned messages\<close> followed by the decimal numeral of the count, which is the one
  string of digits, without a leading zero, whose value is the count. The helper returns
  normally exactly when the expectation is met and throws the failed expectation
  otherwise; it makes no click, and with the expectation a read of the page, it leaves
  the page as it is.
\<close>

theorem assertPinnedCountInRoomInfo_text:
  assumes "count \<le> MAX_SAFE_INTEGER"
  shows "\<exists>ds res w'.
     canonicalDecimal ds \<and> decimalValue ds = count \<and>
     (\<forall>ds'. canonicalDecimal ds' \<and> decimalValue ds' = count \<longrightarrow> ds' = ds) \<and>
     assertPinnedCountInRoomInfo E count w = (res, w') \<and>
     st w' = st w \<and>
     trace w' = trace w @
        [Expect (ToHaveText (GetByRole Menuitem (Some ''Pinned messages'')) (''Pinned messages'' @ ds))] \<and>
     (res = Inr () \<longleftrightarrow>
        holds E (ToHaveText (GetByRole Menuitem (Some ''Pinned messages'')) (''Pinned messages'' @ ds)) (st w)) \<and>
     (res \<noteq> Inr () \<longrightarrow>
        res = Inl (ExpectationFailed
                 (ToHaveText (GetByRole Menuitem (Some ''Pinned messages'')) (''Pinned messages'' @ ds))))"
proof -
  let ?ds = "numberToString count"
  let ?X = "ToHaveText (GetByRole Menuitem (Some ''Pinned messages'')) (''Pinned messages'' @ ?ds)"
  obtain res w' where r: "assertPinnedCountInRoomInfo E count w = (res, w')" by force
  then have e: "expect E ?X w = (res, w')" by (simp only: assertPinnedCountInRoomInfo_def)
  have u: "\<forall>ds'. canonicalDecimal ds' \<and> decimalValue ds' = count \<longrightarrow> ds' = ?ds"
  proof (intro allI impI)
    fix ds' assume a: "canonicalDecimal ds' \<and> decimalValue ds' = count"
    with numberToString_decimalValue[of ds'] show "ds' = ?ds" by simp
  qed
  from e have "st w' = st w" "trace w' = trace w @ [Expect ?X]"
    "res = Inr () \<longleftrightarrow> holds E ?X (st w)" "res \<noteq> Inr () \<longrightarrow> res = Inl (ExpectationFailed ?X)"
    by (auto simp: expect_def split: if_splits)
  with r u canonicalDecimal_numberToString[of count] decimalValue_numberToString[of count]
  show ?thesis by blast
qed

lemma canonicalDecimal_3: "canonicalDecimal ''3'' \<and> decimalValue ''3'' = 3"
  by code_simp

theorem assertPinnedCountInRoomInfo_text_witness:
  "(3::nat) \<le> MAX_SAFE_INTEGER \<and>
   assertPinnedCountInRoomInfo quiet_env 3 start_world =
     (Inr (), \<lparr>st = three_rooms, trace =
        [Expect (ToHaveText (GetByRole Menuitem (Some ''Pinned messages'')) ''Pinned messages3'')]\<rparr>)"
proof -
  have h: "(3::nat) \<le> MAX_SAFE_INTEGER" by (simp add: MAX_SAFE_INTEGER_def)
  from assertPinnedCountInRoomInfo_text[OF h, of quiet_env start_world] obtain ds res w' where
    u: "\<forall>ds'. canonicalDecimal ds' \<and> decimalValue ds' = 3 \<longrightarrow> ds' = ds"
    and r: "assertPinnedCountInRoomInfo quiet_env 3 start_world = (res, w')"
    and s: "st w' = st start_world"
    and t: "trace w' = trace start_world @
        [Expect (ToHaveText (GetByRole Menuitem (Some ''Pinned messages'')) (''Pinned messages'' @ ds))]"
    and ok: "res = Inr () \<longleftrightarrow>
        holds quiet_env (ToHaveText (GetByRole Menuitem (Some ''Pinned messages'')) (''Pinned messages'' @ ds)) (st start_world)"
    by (elim exE conjE)
  from u canonicalDecimal_3 have ds: "ds = ''3''" by blast
  from ok have res: "res = Inr ()" by (simp add: quiet_env_def)
  from s t ds have "w' = \<lparr>st = three_rooms, trace =
        [Expect (ToHaveText (GetByRole Menuitem (Some ''Pinned messages'')) ''Pinned messages3'')]\<rparr>"
    by (cases w') (simp add: start_world_def)
  with h r res show ?thesis by simp
qed

lemma checks_expect: "checks (expect E x) (holds E x)"
  by (auto simp: checks_def expect_def split: if_splits)

lemma checks_ret: "checks (ret ()) (\<lambda>s. True)"
  by (simp add: checks_def ret_def)

lemma checks_andThen:
  assumes "checks p P" "checks q Q"
  shows "checks (andThen p (\<lambda>_. q)) (\<lambda>s. P s \<and> Q s)"
  unfolding checks_def
proof (intro allI impI)
  fix w res w' assume r: "andThen p (\<lambda>_. q) w = (res, w')"
  obtain r1 w1 where p: "p w = (r1, w1)" by force
  with assms(1) have p1: "st w1 = st w" "r1 = Inr () \<longleftrightarrow> P (st w)" by (auto simp: checks_def)
  show "st w' = st w \<and> (res = Inr () \<longleftrightarrow> P (st w) \<and> Q (st w))"
  proof (cases r1)
    case (Inl e)
    with r p have "res = Inl e" "w' = w1" by (auto simp: andThen_def)
    with p1 Inl show ?thesis by auto
  next
    case (Inr u)
    with r p have "q w1 = (res, w')" by (auto simp: andThen_def)
    with assms(2) have "st w' = st w1" "res = Inr () \<longleftrightarrow> Q (st w1)" by (auto simp: checks_def)
    with p1 Inr show ?thesis by auto
  qed
qed

lemma checks_assertVisibleLoop:
  "checks (assertVisibleLoop E l ms) (\<lambda>s. \<forall>m\<in>set ms. holds E (ToBeVisible (Within l (GetByText m))) s)"
proof (induction ms)
  case Nil
  show ?case using checks_ret by simp
next
  case (Cons m ms)
  from checks_andThen[OF checks_expect Cons.IH, of E "ToBeVisible (Within l (GetByText m))"]
  show ?case by simp
qed

lemma checks_assertPinnedMessagesList:
  "checks (assertPinnedMessagesList E ms) (\<lambda>s.
      holds E (ToHaveText (Within getRightPanel (GetByRole Heading (Some ''Pinned messages'')))
                 (numberToString (length ms) @ '' Pinned messages'')) s \<and>
      holds E (ToMatchScreenshot getRightPanel
                 (''pinned-messages-list-messages-'' @ numberToString (length ms) @ ''.png'')) s \<and>
      holds E (ToHaveCount (Within (Within getRightPanel (GetByRole ListRole None)) (GetByRole Listitem None))
                 (length ms)) s \<and>
      (\<forall>m\<in>set ms. holds E (ToBeVisible (Within (Within getRightPanel (GetByRole ListRole None))
                                               (GetByText m))) s))"
  unfolding assertPinnedMessagesList_def Let_def
  by (rule checks_andThen[OF checks_expect checks_andThen[OF checks_expect
        checks_andThen[OF checks_expect checks_assertVisibleLoop]]])

lemma numberToString_Suc_0: "numberToString (Suc 0) = ''1''"
  by code_simp

subsection \<open>The list of pinned messages\<close>

text \<open>
  C7, as amended. \<open>assertPinnedMessagesList\<close> leaves the page as it is and returns
  normally if and only if the heading of the right panel has the text
  \<open>`${messages.length} Pinned messages`\<close>, the right panel matches the screenshot
  \<open>`pinned-messages-list-messages-${messages.length}.png`\<close>, the list has
  \<open>messages.length\<close> items, and every message of the list is visible in the list.
\<close>

theorem assertPinnedMessagesList_iff:
  "st (snd (assertPinnedMessagesList E ms w)) = st w \<and>
   (fst (assertPinnedMessagesList E ms w) = Inr () \<longleftrightarrow>
      holds E (ToHaveText (Within getRightPanel (GetByRole Heading (Some ''Pinned messages'')))
                 (numberToString (length ms) @ '' Pinned messages'')) (st w) \<and>
      holds E (ToMatchScreenshot getRightPanel
                 (''pinned-messages-list-messages-'' @ numberToString (length ms) @ ''.png'')) (st w) \<and>
      holds E (ToHaveCount (Within (Within getRightPanel (GetByRole ListRole None)) (GetByRole Listitem None))
                 (length ms)) (st w) \<and>
      (\<forall>m\<in>set ms. holds E (ToBeVisible (Within (Within getRightPanel (GetByRole ListRole None))
                                               (GetByText m))) (st w)))"
proof -
  obtain res w' where r: "assertPinnedMessagesList E ms w = (res, w')" by force
  from checks_assertPinnedMessagesList[of E ms, unfolded checks_def, rule_format, OF r] r
  show ?thesis by simp
qed

theorem assertPinnedMessagesList_iff_witness:
  "fst (assertPinnedMessagesList quiet_env [''a'', ''b''] start_world) = Inr () \<and>
   holds quiet_env (ToHaveText (Within getRightPanel (GetByRole Heading (Some ''Pinned messages'')))
                 ''2 Pinned messages'') (st start_world) \<and>
   holds quiet_env (ToMatchScreenshot getRightPanel ''pinned-messages-list-messages-2.png'') (st start_world) \<and>
   holds quiet_env (ToHaveCount (Within (Within getRightPanel (GetByRole ListRole None)) (GetByRole Listitem None))
                 2) (st start_world) \<and>
   holds quiet_env (ToBeVisible (Within (Within getRightPanel (GetByRole ListRole None))
                                               (GetByText ''a''))) (st start_world) \<and>
   holds quiet_env (ToBeVisible (Within (Within getRightPanel (GetByRole ListRole None))
                                               (GetByText ''b''))) (st start_world)"
  using assertPinnedMessagesList_iff[of quiet_env "[''a'', ''b'']" start_world]
  by (simp add: quiet_env_def numberToString_2)

text \<open>
  C7 as stated, without the screenshot, fails: where the heading, the number of items and
  the visibility of the message are as expected and the screenshot differs, the helper
  throws.
\<close>

theorem assertPinnedMessagesList_screenshot_counterexample:
  "holds screenshot_differs_env
      (ToHaveText (Within getRightPanel (GetByRole Heading (Some ''Pinned messages''))) ''1 Pinned messages'')
      (st start_world) \<and>
   holds screenshot_differs_env
      (ToHaveCount (Within (Within getRightPanel (GetByRole ListRole None)) (GetByRole Listitem None)) 1)
      (st start_world) \<and>
   holds screenshot_differs_env
      (ToBeVisible (Within (Within getRightPanel (GetByRole ListRole None)) (GetByText ''a'')))
      (st start_world) \<and>
   fst (assertPinnedMessagesList screenshot_differs_env [''a''] start_world) =
      Inl (ExpectationFailed (ToMatchScreenshot getRightPanel ''pinned-messages-list-messages-1.png''))"
  by (simp add: screenshot_differs_env_def assertPinnedMessagesList_def andThen_def expect_def
        numberToString_Suc_0 Let_def)

subsection \<open>The factory hook on a room the client does not have\<close>

text \<open>
  C10, as amended. When \<open>cli.getRoom(roomId)\<close> is \<open>null\<close>, the factory does not touch
  the missing room: the mapper it hands to \<open>useEventEmitterState\<close> is the constant
  \<open>false\<close>, \<open>canInviteTo\<close> and \<open>isSpaceRoom\<close> are not called (the result is the same
  whatever they are), \<open>false\<close> is passed for \<open>isSpaceRoom\<close>, and the view model is made
  from the value the hook returns. That value is \<open>false\<close> when the hook returns what its
  mapper computes.
\<close>

theorem factory_without_room:
  assumes "getRoom (useMatrixClientContext H) room_id = None"
  shows "useMemberListViewModelFactory H room_id =
           (case useEventEmitterState H None Update (\<lambda>_. Inr False) of
              Inl e \<Rightarrow> Inl e
            | Inr canInviteToState \<Rightarrow>
                Inr (useMemberListViewModel H canInviteToState False
                       \<lparr>service_roomId = room_id, service_cli = useMatrixClientContext H,
                        service_store = memberListStore (useContextSDK H)\<rparr>)) \<and>
         (useEventEmitterState H None Update (\<lambda>_. Inr False) = Inr False \<longrightarrow>
            useMemberListViewModelFactory H room_id =
              Inr (useMemberListViewModel H False False
                     \<lparr>service_roomId = room_id, service_cli = useMatrixClientContext H,
                      service_store = memberListStore (useContextSDK H)\<rparr>)) \<and>
         useMemberListViewModelFactory (H\<lparr>canInviteTo := f, isSpaceRoom := g\<rparr>) room_id =
           useMemberListViewModelFactory H room_id"
  using assms
  by (simp add: useMemberListViewModelFactory_def truthy_def optionalIsSpaceRoom_def
        nullish_def Let_def split: sum.splits)

theorem factory_without_room_witness:
  "getRoom (useMatrixClientContext no_rooms_hooks) ''!missing'' = None \<and>
   useEventEmitterState no_rooms_hooks None Update (\<lambda>_. Inr False) = Inr False \<and>
   useMemberListViewModelFactory no_rooms_hooks ''!missing'' = Inr (False, False, ''!missing'', 7)"
proof -
  have h: "getRoom (useMatrixClientContext no_rooms_hooks) ''!missing'' = None"
    by (simp add: no_rooms_hooks_def)
  have m: "useEventEmitterState no_rooms_hooks None Update (\<lambda>_. Inr False) = Inr False"
    by (simp add: no_rooms_hooks_def)
  from factory_without_room[OF h, THEN conjunct2, THEN conjunct1, THEN mp, OF m] have
    "useMemberListViewModelFactory no_rooms_hooks ''!missing'' =
       Inr (useMemberListViewModel no_rooms_hooks False False
              \<lparr>service_roomId = ''!missing'', service_cli = useMatrixClientContext no_rooms_hooks,
               service_store = memberListStore (useContextSDK no_rooms_hooks)\<rparr>)" .
  with h m show ?thesis by (simp add: no_rooms_hooks_def)
qed

text \<open>
  C10 as stated, with \<open>canInviteToState\<close> computed as \<open>false\<close> whenever the room is
  missing, fails: the value passed on is the one the hook returns, and where that is a
  value kept from an earlier render the view model gets \<open>true\<close> with no room.
\<close>

theorem factory_without_room_kept_value_counterexample:
  "getRoom (useMatrixClientContext kept_value_hooks) ''!missing'' = None \<and>
   useMemberListViewModelFactory kept_value_hooks ''!missing'' = Inr (True, False, ''!missing'', 7)"
  by (simp add: kept_value_hooks_def no_rooms_hooks_def useMemberListViewModelFactory_def
        truthy_def optionalIsSpaceRoom_def nullish_def Let_def)

end
